theory Spec2Isabelle
  imports Main
begin

section \<open>JavaScript values used by the booking engine\<close>

text \<open>
  A JavaScript number that results from \<^verbatim>\<open>parseInt\<close> is either an integer or
  \<^verbatim>\<open>NaN\<close>; it is modelled as \<open>int option\<close> with \<open>None\<close> for \<^verbatim>\<open>NaN\<close>.
  Every comparison with \<^verbatim>\<open>NaN\<close> is false and \<^verbatim>\<open>NaN + h\<close> is \<^verbatim>\<open>NaN\<close>.
  Hours and amounts are whole numbers (unbounded \<open>int\<close>).
\<close>

type_synonym jsnum = "int option"

definition js_lt :: "jsnum \<Rightarrow> jsnum \<Rightarrow> bool" where
  "js_lt a b = (case a of None \<Rightarrow> False | Some x \<Rightarrow> (case b of None \<Rightarrow> False | Some y \<Rightarrow> x < y))"

definition js_le :: "jsnum \<Rightarrow> jsnum \<Rightarrow> bool" where
  "js_le a b = (case a of None \<Rightarrow> False | Some x \<Rightarrow> (case b of None \<Rightarrow> False | Some y \<Rightarrow> x \<le> y))"

definition js_gt :: "jsnum \<Rightarrow> jsnum \<Rightarrow> bool" where
  "js_gt a b = js_lt b a"

definition js_ge :: "jsnum \<Rightarrow> jsnum \<Rightarrow> bool" where
  "js_ge a b = js_le b a"

definition js_plus :: "jsnum \<Rightarrow> int \<Rightarrow> jsnum" where
  "js_plus a h = (case a of None \<Rightarrow> None | Some x \<Rightarrow> Some (x + h))"

text \<open>
  \<^verbatim>\<open>parseInt(s, 10)\<close>: leading white space is skipped, one sign is read, then the
  longest run of decimal digits; no digit gives \<^verbatim>\<open>NaN\<close>. Strings are byte strings
  here, so the white space recognised is the ASCII one.
\<close>

definition is_ws :: "char \<Rightarrow> bool" where
  "is_ws c = (of_char c \<in> {9, 10, 11, 12, 13, 32 :: nat})"

definition is_digit :: "char \<Rightarrow> bool" where
  "is_digit c = (48 \<le> (of_char c :: nat) \<and> (of_char c :: nat) \<le> 57)"

definition digit_val :: "char \<Rightarrow> int" where
  "digit_val c = int (of_char c) - 48"

definition digits_val :: "string \<Rightarrow> int" where
  "digits_val ds = foldl (\<lambda>acc c. acc * 10 + digit_val c) 0 ds"

definition parseInt10 :: "string \<Rightarrow> jsnum" where
  "parseInt10 s =
     (let t = dropWhile is_ws s;
          neg = (case t of [] \<Rightarrow> False | c # _ \<Rightarrow> c = CHR ''-'');
          u = (case t of [] \<Rightarrow> [] | c # r \<Rightarrow> if c = CHR ''-'' \<or> c = CHR ''+'' then r else t);
          ds = takeWhile is_digit u
      in if ds = [] then None
         else Some (if neg then - digits_val ds else digits_val ds))"

text \<open>\<^verbatim>\<open>s.split(":")[0]\<close>: the part of \<open>s\<close> before its first colon.\<close>

definition split_colon_0 :: "string \<Rightarrow> string" where
  "split_colon_0 s = takeWhile (\<lambda>c. c \<noteq> CHR '':'') s"

text \<open>The expression \<^verbatim>\<open>parseInt(t.split(":")[0], 10)\<close>, which the storage uses
  for every start time.\<close>

definition startHour :: "string \<Rightarrow> jsnum" where
  "startHour t = parseInt10 (split_colon_0 t)"

text \<open>A JavaScript \<^verbatim>\<open>Map\<close> keeps its keys in insertion order; \<^verbatim>\<open>set\<close> on a
  key that is present replaces the value in place.\<close>

fun map_set :: "'k \<Rightarrow> 'v \<Rightarrow> ('k \<times> 'v) list \<Rightarrow> ('k \<times> 'v) list" where
  "map_set k v [] = [(k, v)]"
| "map_set k v (p # m) = (if fst p = k then (k, v) # m else p # map_set k v m)"

definition map_get :: "('k \<times> 'v) list \<Rightarrow> 'k \<Rightarrow> 'v option" where
  "map_get m k = map_of m k"

definition map_values :: "('k \<times> 'v) list \<Rightarrow> 'v list" where
  "map_values m = map snd m"

section \<open>Data model (shared schema)\<close>

record court =
  court_id :: string
  court_name :: string

record sport =
  sport_id :: string
  sport_name :: string
  pricePerHour :: int

text \<open>The columns shared by a stored booking and a booking request.\<close>

record bookingFields =
  name :: string
  phone :: string
  sportId :: string
  courtId :: string
  date :: string
  startTime :: string
  hours :: int
  amount :: int

text \<open>\<^verbatim>\<open>InsertBooking\<close>: the request without \<open>id\<close> and \<open>uuid\<close>; the status
  column has a default, so it is optional.\<close>

record insertBooking = bookingFields +
  status_in :: "string option"

record booking = bookingFields +
  booking_id :: string
  uuid :: string
  status :: string

record timeSlot =
  time :: string
  displayTime :: string
  available :: bool
  bookingId :: "string option"

record memStorage =
  courts :: "(string \<times> court) list"
  sports :: "(string \<times> sport) list"
  bookings :: "(string \<times> booking) list"

definition OPENING_HOUR :: int where
  "OPENING_HOUR = 6"

definition CLOSING_HOUR :: int where
  "CLOSING_HOUR = 23"

section \<open>The in-memory storage\<close>

text \<open>\<^verbatim>\<open>randomUUID().slice(0, 8).toUpperCase()\<close> on a byte string.\<close>

definition upper_char :: "char \<Rightarrow> char" where
  "upper_char c =
     (case map_of (zip ''abcdefghijklmnopqrstuvwxyz'' ''ABCDEFGHIJKLMNOPQRSTUVWXYZ'') c of
        None \<Rightarrow> c | Some u \<Rightarrow> u)"

definition short_ref :: "string \<Rightarrow> string" where
  "short_ref r = map upper_char (take 8 r)"

definition getBooking :: "memStorage \<Rightarrow> string \<Rightarrow> booking option" where
  "getBooking st i = map_get (bookings st) i"

text \<open>\<^verbatim>\<open>createBooking\<close> draws two random UUIDs; they are the arguments
  \<open>r1\<close> and \<open>r2\<close>. \<^verbatim>\<open>booking.status || "booked"\<close> takes the default for a
  missing and for an empty status.\<close>

definition mk_booking :: "string \<Rightarrow> string \<Rightarrow> 'a bookingFields_scheme \<Rightarrow> string \<Rightarrow> booking" where
  "mk_booking i u b s =
     \<lparr> name = name b, phone = phone b, sportId = sportId b, courtId = courtId b,
       date = date b, startTime = startTime b, hours = hours b, amount = amount b,
       booking_id = i, uuid = u, status = s \<rparr>"

definition new_booking :: "string \<Rightarrow> string \<Rightarrow> insertBooking \<Rightarrow> booking" where
  "new_booking r1 r2 b =
     mk_booking r1 (short_ref r2) b
       (case status_in b of None \<Rightarrow> ''booked'' | Some s \<Rightarrow> if s = [] then ''booked'' else s)"

definition createBooking :: "string \<Rightarrow> string \<Rightarrow> insertBooking \<Rightarrow> memStorage \<Rightarrow> booking \<times> memStorage" where
  "createBooking r1 r2 b st =
     (let newBooking = new_booking r1 r2 b
      in (newBooking, st\<lparr>bookings := map_set r1 newBooking (bookings st)\<rparr>))"

definition updateBookingStatus :: "string \<Rightarrow> string \<Rightarrow> memStorage \<Rightarrow> booking option \<times> memStorage" where
  "updateBookingStatus i s st =
     (case map_get (bookings st) i of
        None \<Rightarrow> (None, st)
      | Some b \<Rightarrow>
          (let updatedBooking = b\<lparr>status := s\<rparr>
           in (Some updatedBooking, st\<lparr>bookings := map_set i updatedBooking (bookings st)\<rparr>)))"

definition getBookingsForDateAndCourt :: "memStorage \<Rightarrow> string \<Rightarrow> string \<Rightarrow> booking list" where
  "getBookingsForDateAndCourt st d c =
     filter (\<lambda>b. date b = d \<and> courtId b = c \<and> status b = ''booked'') (map_values (bookings st))"

text \<open>The three-clause test in the loop of \<^verbatim>\<open>checkSlotAvailability\<close>, on the
  requested range \<open>[rs, re)\<close> and a stored range \<open>[bs, be)\<close>.\<close>

definition slot_clash :: "jsnum \<Rightarrow> jsnum \<Rightarrow> jsnum \<Rightarrow> jsnum \<Rightarrow> bool" where
  "slot_clash rs re bs be =
     ((js_ge rs bs \<and> js_lt rs be) \<or>
      (js_gt re bs \<and> js_le re be) \<or>
      (js_le rs bs \<and> js_ge re be))"

fun check_loop :: "jsnum \<Rightarrow> jsnum \<Rightarrow> booking list \<Rightarrow> bool" where
  "check_loop rs re [] = True"
| "check_loop rs re (b # existing) =
     (let bookingStartHour = startHour (startTime b);
          bookingEndHour = js_plus bookingStartHour (hours b)
      in if slot_clash rs re bookingStartHour bookingEndHour then False
         else check_loop rs re existing)"

definition checkSlotAvailability :: "memStorage \<Rightarrow> string \<Rightarrow> string \<Rightarrow> string \<Rightarrow> int \<Rightarrow> bool" where
  "checkSlotAvailability st c d t h =
     (let existingBookings = getBookingsForDateAndCourt st d c;
          requestedStartHour = startHour t;
          requestedEndHour = js_plus requestedStartHour h
      in if js_lt requestedStartHour (Some OPENING_HOUR) \<or> js_gt requestedEndHour (Some CLOSING_HOUR)
         then False
         else check_loop requestedStartHour requestedEndHour existingBookings)"

section \<open>The routes\<close>

datatype error =
    Unauthorized
  | ValidationFailed
  | SlotTaken
  | NotFound
  | AlreadyCancelled
  | CannotCompleteCancelled

text \<open>The checks of the insert schema on a request body: a name of at least two
  characters, a phone number of 7 to 20 characters out of digits, \<open>-\<close>, \<open>+\<close> and
  blank, a sport id and a court id of at most 36 characters (the columns are
  \<^verbatim>\<open>varchar(36)\<close>), and 1 to 8 hours. The check on the amount is generated from
  the integer column by the schema library, and its bounds depend on the library's
  version: it is the parameter \<open>amount_ok\<close>. The schema takes any number from 1 to
  8 for the hours; the model covers the whole numbers.\<close>

definition phone_char :: "char \<Rightarrow> bool" where
  "phone_char c = (is_digit c \<or> c = CHR ''-'' \<or> c = CHR ''+'' \<or> c = CHR '' '')"

definition insertBookingSchema_ok :: "(int \<Rightarrow> bool) \<Rightarrow> insertBooking \<Rightarrow> bool" where
  "insertBookingSchema_ok amount_ok b =
     (2 \<le> length (name b) \<and>
      7 \<le> length (phone b) \<and> length (phone b) \<le> 20 \<and> list_all phone_char (phone b) \<and>
      length (sportId b) \<le> 36 \<and> length (courtId b) \<le> 36 \<and>
      1 \<le> hours b \<and> hours b \<le> 8 \<and>
      amount_ok (amount b))"

text \<open>The amount check of a schema library that bounds an integer column by the
  32-bit range.\<close>

definition amount_int32 :: "int \<Rightarrow> bool" where
  "amount_int32 a = (- 2147483648 \<le> a \<and> a \<le> 2147483647)"

text \<open>\<^verbatim>\<open>POST /api/bookings\<close>. \<open>authed\<close> says whether the session carries a user.\<close>

definition post_booking :: "(int \<Rightarrow> bool) \<Rightarrow> bool \<Rightarrow> string \<Rightarrow> string \<Rightarrow> insertBooking \<Rightarrow> memStorage \<Rightarrow> (error + booking) \<times> memStorage" where
  "post_booking amount_ok authed r1 r2 body st =
     (if \<not> authed then (Inl Unauthorized, st)
      else if \<not> insertBookingSchema_ok amount_ok body then (Inl ValidationFailed, st)
      else if \<not> checkSlotAvailability st (courtId body) (date body) (startTime body) (hours body)
      then (Inl SlotTaken, st)
      else (case createBooking r1 r2 body st of (b, st') \<Rightarrow> (Inr b, st')))"

text \<open>\<^verbatim>\<open>POST /api/bookings/:id/cancel\<close>. The response body is what
  \<^verbatim>\<open>updateBookingStatus\<close> returned.\<close>

definition post_cancel :: "bool \<Rightarrow> string \<Rightarrow> memStorage \<Rightarrow> (error + booking option) \<times> memStorage" where
  "post_cancel authed i st =
     (if \<not> authed then (Inl Unauthorized, st)
      else (case getBooking st i of
              None \<Rightarrow> (Inl NotFound, st)
            | Some b \<Rightarrow>
                if status b = ''cancelled'' then (Inl AlreadyCancelled, st)
                else (case updateBookingStatus i ''cancelled'' st of
                        (updatedBooking, st') \<Rightarrow> (Inr updatedBooking, st'))))"

text \<open>\<^verbatim>\<open>POST /api/bookings/:id/complete\<close>\<close>

definition post_complete :: "bool \<Rightarrow> string \<Rightarrow> memStorage \<Rightarrow> (error + booking option) \<times> memStorage" where
  "post_complete authed i st =
     (if \<not> authed then (Inl Unauthorized, st)
      else (case getBooking st i of
              None \<Rightarrow> (Inl NotFound, st)
            | Some b \<Rightarrow>
                if status b = ''cancelled'' then (Inl CannotCompleteCancelled, st)
                else (case updateBookingStatus i ''completed'' st of
                        (updatedBooking, st') \<Rightarrow> (Inr updatedBooking, st'))))"

section \<open>The day grid\<close>

text \<open>\<^verbatim>\<open>n.toString()\<close> of a whole number: its decimal digits, after a minus sign
  when it is negative.\<close>

definition digit_char :: "int \<Rightarrow> char" where
  "digit_char d =
     (if d = 0 then CHR ''0'' else if d = 1 then CHR ''1'' else if d = 2 then CHR ''2''
      else if d = 3 then CHR ''3'' else if d = 4 then CHR ''4'' else if d = 5 then CHR ''5''
      else if d = 6 then CHR ''6'' else if d = 7 then CHR ''7'' else if d = 8 then CHR ''8''
      else CHR ''9'')"

function digits :: "int \<Rightarrow> string" where
  "digits n = (if n < 10 then [digit_char n] else digits (n div 10) @ [digit_char (n mod 10)])"
  by pat_completeness auto
termination
  by (relation "measure nat") auto

declare digits.simps [simp del]

definition toString :: "int \<Rightarrow> string" where
  "toString n = (if n < 0 then CHR ''-'' # digits (- n) else digits n)"

definition padStart :: "nat \<Rightarrow> char \<Rightarrow> string \<Rightarrow> string" where
  "padStart w c s = replicate (w - length s) c @ s"

text \<open>The set \<^verbatim>\<open>bookedHours\<close>: for each booking, \<^verbatim>\<open>startHour + h\<close> for
  \<open>h = 0, 1, \<dots>\<close> below its hours.\<close>

definition bookedHours :: "booking list \<Rightarrow> jsnum set" where
  "bookedHours courtBookings =
     (\<Union>b \<in> set courtBookings. set (map (\<lambda>h. js_plus (startHour (startTime b)) h) [0..hours b - 1]))"

definition court_slot :: "booking list \<Rightarrow> int \<Rightarrow> timeSlot" where
  "court_slot courtBookings hour =
     \<lparr> time = padStart 2 (CHR ''0'') (toString hour) @ '':00'',
       displayTime = toString (if hour > 12 then hour - 12 else hour) @ '':00 '' @
                     (if hour \<ge> 12 then ''PM'' else ''AM''),
       available = (Some hour \<notin> bookedHours courtBookings),
       bookingId = map_option booking_id
                     (find (\<lambda>b. startHour (startTime b) = Some hour) courtBookings) \<rparr>"

definition courtSlots :: "booking list \<Rightarrow> timeSlot list" where
  "courtSlots courtBookings = map (court_slot courtBookings) [OPENING_HOUR..CLOSING_HOUR - 1]"

text \<open>\<^verbatim>\<open>getAvailability\<close>; the object \<^verbatim>\<open>slots\<close> is keyed by court id.\<close>

definition getAvailability ::
  "memStorage \<Rightarrow> string \<Rightarrow> court list \<times> sport list \<times> (string \<times> timeSlot list) list" where
  "getAvailability st d =
     (let cs = map_values (courts st);
          slots = foldl (\<lambda>slots c.
                    map_set (court_id c) (courtSlots (getBookingsForDateAndCourt st d (court_id c))) slots)
                  [] cs
      in (cs, map_values (sports st), slots))"

section \<open>Calendar dates\<close>

text \<open>
  A date is the number of its local day, counted from 1970-01-01 (a Thursday).
  \<open>civil\<close> gives year, month and day of month in the proleptic Gregorian calendar;
  \<open>format_date\<close> is \<^verbatim>\<open>format(d, "yyyy-MM-dd")\<close> of the date library: each
  number padded with zeros, a year that is not positive counted as \<open>1 - year\<close>.
  \<open>startOfWeek\<close> takes the option \<^verbatim>\<open>weekStartsOn\<close> of the date library
  (0 is Sunday, 1 is Monday); the library's default, which a call without options
  takes, is 0.
\<close>

definition year_of_era :: "int \<Rightarrow> int" where
  "year_of_era doe = (doe - doe div 1460 + doe div 36524 - doe div 146096) div 365"

definition days_before_year :: "int \<Rightarrow> int" where
  "days_before_year yoe = 365 * yoe + yoe div 4 - yoe div 100"

definition day_of_year :: "int \<Rightarrow> int" where
  "day_of_year doe = doe - days_before_year (year_of_era doe)"

definition month_index :: "int \<Rightarrow> int" where
  "month_index doy = (5 * doy + 2) div 153"

definition day_of_month :: "int \<Rightarrow> int" where
  "day_of_month doy = doy - (153 * month_index doy + 2) div 5 + 1"

definition civil :: "int \<Rightarrow> int \<times> int \<times> int" where
  "civil n =
     (let z = n + 719468;
          era = z div 146097;
          doe = z mod 146097;
          yoe = year_of_era doe;
          doy = day_of_year doe;
          mp = month_index doy;
          d = day_of_month doy;
          m = (if mp < 10 then mp + 3 else mp - 9);
          y = yoe + era * 400 + (if m \<le> 2 then 1 else 0)
      in (y, m, d))"

definition addLeadingZeros :: "int \<Rightarrow> nat \<Rightarrow> string" where
  "addLeadingZeros n w = (if n < 0 then ''-'' else []) @ padStart w (CHR ''0'') (toString (abs n))"

definition format_date :: "int \<Rightarrow> string" where
  "format_date n =
     (case civil n of (y, m, d) \<Rightarrow>
        addLeadingZeros (if y > 0 then y else 1 - y) 4 @ ''-'' @
        addLeadingZeros m 2 @ ''-'' @
        addLeadingZeros d 2)"

definition getDay :: "int \<Rightarrow> int" where
  "getDay n = (n + 4) mod 7"

definition startOfWeek :: "int \<Rightarrow> int \<Rightarrow> int" where
  "startOfWeek weekStartsOn n =
     (let day = getDay n;
          diff = (if day < weekStartsOn then 7 else 0) + day - weekStartsOn
      in n - diff)"

definition startOfMonth :: "int \<Rightarrow> int" where
  "startOfMonth n = (case civil n of (y, m, d) \<Rightarrow> n - (d - 1))"

definition subDays :: "int \<Rightarrow> int \<Rightarrow> int" where
  "subDays n k = n - k"

text \<open>The day of the month of a date, and what the proofs about the calendar check
  year by year and day by day: the last day of a year of the era, that
  \<open>year_of_era\<close> is right on the first and the last day of a year, and how the day
  of the month moves from one day of the year to the next.\<close>

definition last_of_year :: "int \<Rightarrow> int" where
  "last_of_year y = (if y = 399 then 146096 else days_before_year (y + 1) - 1)"

definition year_ok :: "int \<Rightarrow> bool" where
  "year_ok y =
     (year_of_era (days_before_year y) = y \<and> year_of_era (last_of_year y) = y \<and>
      364 \<le> last_of_year y - days_before_year y \<and> last_of_year y - days_before_year y \<le> 365)"

definition doy_ok :: "int \<Rightarrow> bool" where
  "doy_ok doy =
     (1 \<le> day_of_month doy \<and> day_of_month doy \<le> 31 \<and>
      (day_of_month (doy + 1) = day_of_month doy + 1 \<or>
       (day_of_month (doy + 1) = 1 \<and> 28 \<le> day_of_month doy) \<or> 364 \<le> doy) \<and>
      (doy < 364 \<or> 28 \<le> day_of_month doy))"

definition getDate :: "int \<Rightarrow> int" where
  "getDate n = day_of_month (day_of_year ((n + 719468) mod 146097))"

text \<open>The comparison \<^verbatim>\<open>a >= b\<close> of two strings: by code unit, a proper prefix
  being smaller.\<close>

fun str_lt :: "string \<Rightarrow> string \<Rightarrow> bool" where
  "str_lt [] [] = False"
| "str_lt [] (y # ys) = True"
| "str_lt (x # xs) [] = False"
| "str_lt (x # xs) (y # ys) =
     (if (of_char x :: nat) < of_char y then True
      else if (of_char y :: nat) < of_char x then False
      else str_lt xs ys)"

definition str_ge :: "string \<Rightarrow> string \<Rightarrow> bool" where
  "str_ge a b = (\<not> str_lt a b)"

section \<open>Dashboard metrics\<close>

text \<open>The revenue figures and the booking count of \<^verbatim>\<open>getDashboardMetrics\<close>;
  \<open>now\<close> is the day of \<^verbatim>\<open>new Date()\<close>. The two occupancy percentages are
  floating-point roundings and are left out.\<close>

record dashboardMetrics =
  todayRevenue :: int
  weekRevenue :: int
  monthRevenue :: int
  totalBookings :: nat

definition sum_amount :: "booking list \<Rightarrow> int" where
  "sum_amount bs = foldl (\<lambda>sum b. sum + amount b) 0 bs"

definition getDashboardMetrics :: "int \<Rightarrow> memStorage \<Rightarrow> dashboardMetrics" where
  "getDashboardMetrics now st =
     (let bs = filter (\<lambda>b. status b = ''booked'' \<or> status b = ''completed'') (map_values (bookings st));
          today = format_date now;
          weekStart = format_date (startOfWeek 0 now);
          monthStart = format_date (startOfMonth now)
      in \<lparr> todayRevenue = sum_amount (filter (\<lambda>b. date b = today) bs),
           weekRevenue = sum_amount (filter (\<lambda>b. str_ge (date b) weekStart) bs),
           monthRevenue = sum_amount (filter (\<lambda>b. str_ge (date b) monthStart) bs),
           totalBookings = length bs \<rparr>)"

text \<open>The week revenue as the specification words it, for a week that starts on the
  weekday \<open>weekStartsOn\<close>.\<close>

definition spec_weekRevenue :: "int \<Rightarrow> int \<Rightarrow> memStorage \<Rightarrow> int" where
  "spec_weekRevenue weekStartsOn now st =
     sum_list (map amount
       (filter (\<lambda>b. (status b = ''booked'' \<or> status b = ''completed'') \<and>
                     str_ge (date b) (format_date (startOfWeek weekStartsOn now)))
               (map_values (bookings st))))"

section \<open>The seeded store\<close>

definition sample ::
  "string \<Rightarrow> string \<Rightarrow> string \<Rightarrow> string \<Rightarrow> string \<Rightarrow> string \<Rightarrow> int \<Rightarrow> int \<Rightarrow> bookingFields" where
  "sample n p sp c d t h a =
     \<lparr> name = n, phone = p, sportId = sp, courtId = c, date = d, startTime = t,
       hours = h, amount = a \<rparr>"

definition sampleBookings :: "int \<Rightarrow> bookingFields list" where
  "sampleBookings today =
     [ sample ''Ahmed Khan'' ''+92 300 1234567'' ''cricket'' ''court-a'' (format_date today) ''09:00'' 2 4000,
       sample ''Ali Hassan'' ''+92 321 9876543'' ''football'' ''court-b'' (format_date today) ''14:00'' 1 2500,
       sample ''Muhammad Rizwan'' ''+92 333 5556789'' ''cricket'' ''court-a'' (format_date (subDays today 1)) ''10:00'' 3 6000,
       sample ''Usman Tariq'' ''+92 345 1112233'' ''football'' ''court-a'' (format_date (subDays today 1)) ''16:00'' 2 5000,
       sample ''Bilal Ahmed'' ''+92 301 4445566'' ''cricket'' ''court-b'' (format_date (subDays today 2)) ''08:00'' 2 4000,
       sample ''Hassan Ali'' ''+92 312 7778899'' ''football'' ''court-a'' (format_date (subDays today 2)) ''18:00'' 1 2500,
       sample ''Imran Shah'' ''+92 323 0001122'' ''cricket'' ''court-b'' (format_date (subDays today 3)) ''11:00'' 2 4000,
       sample ''Kashif Raza'' ''+92 334 3334455'' ''football'' ''court-b'' (format_date (subDays today 3)) ''15:00'' 2 5000,
       sample ''Naveed Iqbal'' ''+92 345 6667788'' ''cricket'' ''court-a'' (format_date (subDays today 4)) ''07:00'' 1 2000,
       sample ''Shahid Malik'' ''+92 300 9990011'' ''football'' ''court-a'' (format_date (subDays today 4)) ''19:00'' 2 5000,
       sample ''Waqar Younis'' ''+92 321 2223344'' ''cricket'' ''court-b'' (format_date (subDays today 5)) ''12:00'' 3 6000,
       sample ''Yasir Arafat'' ''+92 333 5556677'' ''football'' ''court-b'' (format_date (subDays today 5)) ''17:00'' 1 2500,
       sample ''Zain Abbas'' ''+92 345 8889900'' ''cricket'' ''court-a'' (format_date (subDays today 6)) ''08:00'' 2 4000,
       sample ''Farhan Saeed'' ''+92 301 1112233'' ''football'' ''court-a'' (format_date (subDays today 6)) ''20:00'' 2 5000,
       sample ''Junaid Khan'' ''+92 312 4445566'' ''cricket'' ''court-b'' (format_date today) ''18:00'' 1 2000 ]"

text \<open>The \<^verbatim>\<open>forEach\<close> over the samples: the \<open>k\<close>-th booking takes the random
  UUIDs \<open>rnd (2 * k)\<close> and \<open>rnd (2 * k + 1)\<close>.\<close>

fun seedBookings ::
  "(nat \<Rightarrow> string) \<Rightarrow> nat \<Rightarrow> bookingFields list \<Rightarrow> (string \<times> booking) list \<Rightarrow> (string \<times> booking) list" where
  "seedBookings rnd k [] m = m"
| "seedBookings rnd k (b # bs) m =
     seedBookings rnd (k + 1) bs
       (map_set (rnd (2 * k)) (mk_booking (rnd (2 * k)) (short_ref (rnd (2 * k + 1))) b ''booked'') m)"

definition seedCourts :: "(string \<times> court) list" where
  "seedCourts =
     map_set ''court-b'' \<lparr>court_id = ''court-b'', court_name = ''Court B''\<rparr>
       (map_set ''court-a'' \<lparr>court_id = ''court-a'', court_name = ''Court A''\<rparr> [])"

definition seedSports :: "(string \<times> sport) list" where
  "seedSports =
     map_set ''football'' \<lparr>sport_id = ''football'', sport_name = ''Football'', pricePerHour = 2500\<rparr>
       (map_set ''cricket'' \<lparr>sport_id = ''cricket'', sport_name = ''Cricket'', pricePerHour = 2000\<rparr> [])"

text \<open>The constructor of \<^verbatim>\<open>MemStorage\<close>: empty maps, then \<^verbatim>\<open>seedData\<close>.\<close>

definition MemStorage_new :: "int \<Rightarrow> (nat \<Rightarrow> string) \<Rightarrow> memStorage" where
  "MemStorage_new today rnd =
     \<lparr> courts = seedCourts, sports = seedSports,
       bookings = seedBookings rnd 0 (sampleBookings today) [] \<rparr>"

text \<open>The seven dates the seed uses.\<close>

definition seedDates :: "int \<Rightarrow> string list" where
  "seedDates today = map (\<lambda>i. format_date (subDays today i)) [0, 1, 2, 3, 4, 5, 6]"

section \<open>Reachable stores\<close>

text \<open>The stores that the three writing routes produce from a store \<open>s0\<close>, for
  every amount check of the schema.\<close>

inductive reachable :: "memStorage \<Rightarrow> memStorage \<Rightarrow> bool" for s0 :: memStorage where
  start: "reachable s0 s0"
| create: "reachable s0 st \<Longrightarrow> reachable s0 (snd (post_booking amount_ok authed r1 r2 body st))"
| cancel: "reachable s0 st \<Longrightarrow> reachable s0 (snd (post_cancel authed i st))"
| complete: "reachable s0 st \<Longrightarrow> reachable s0 (snd (post_complete authed i st))"

section \<open>The no-double-booking invariant\<close>

text \<open>The overlap predicate as the specification words it.\<close>

definition ranges_conflict :: "jsnum \<Rightarrow> jsnum \<Rightarrow> jsnum \<Rightarrow> jsnum \<Rightarrow> bool" where
  "ranges_conflict s1 e1 s2 e2 = (js_lt s1 e2 \<and> js_lt s2 e1)"

text \<open>Two bookings of one court and date whose ranges \<open>[start, start + hours)\<close>
  conflict; a start time without an hour has no range.\<close>

definition fields_clash :: "'a bookingFields_scheme \<Rightarrow> 'b bookingFields_scheme \<Rightarrow> bool" where
  "fields_clash a b =
     (courtId a = courtId b \<and> date a = date b \<and>
      ranges_conflict (startHour (startTime a)) (js_plus (startHour (startTime a)) (hours a))
                      (startHour (startTime b)) (js_plus (startHour (startTime b)) (hours b)))"

definition double_booked :: "booking \<Rightarrow> booking \<Rightarrow> bool" where
  "double_booked a b = (status a = ''booked'' \<and> status b = ''booked'' \<and> fields_clash a b)"

definition no_double_booking :: "(string \<times> booking) list \<Rightarrow> bool" where
  "no_double_booking m = sorted_wrt (\<lambda>a b. \<not> double_booked a b) (map_values m)"

text \<open>What the create route guarantees of every booking it stores: 1 to 8 hours, and
  a range inside the opening window when the start time has an hour.\<close>

definition in_window :: "'a bookingFields_scheme \<Rightarrow> bool" where
  "in_window b =
     (1 \<le> hours b \<and> hours b \<le> 8 \<and>
      (case startHour (startTime b) of None \<Rightarrow> True
       | Some s \<Rightarrow> OPENING_HOUR \<le> s \<and> s + hours b \<le> CLOSING_HOUR))"

definition store_ok :: "memStorage \<Rightarrow> bool" where
  "store_ok st = (no_double_booking (bookings st) \<and> list_all in_window (map_values (bookings st)))"




section \<open>The booking form of the client\<close>

text \<open>\<^verbatim>\<open>calculatedAmount\<close> of the booking modal and the request body its
  mutation posts; the form has no status field.\<close>

definition calculatedAmount :: "sport option \<Rightarrow> int \<Rightarrow> int" where
  "calculatedAmount selectedSport h =
     (case selectedSport of None \<Rightarrow> 0 | Some s \<Rightarrow> pricePerHour s * h)"

definition bookingForm_request ::
  "sport list \<Rightarrow> string \<Rightarrow> string \<Rightarrow> string \<Rightarrow> string \<Rightarrow> string \<Rightarrow> string \<Rightarrow> int \<Rightarrow> insertBooking" where
  "bookingForm_request sps court d slotTime n p sp h =
     \<lparr> name = n, phone = p, sportId = sp, courtId = court, date = d, startTime = slotTime,
       hours = h, amount = calculatedAmount (find (\<lambda>s. sport_id s = sp) sps) h,
       status_in = None \<rparr>"

section \<open>Example stores\<close>

text \<open>A store with the seeded courts and sports and no booking, a request body, and
  the store after one accepted request for court A at 09:00 for two hours.\<close>

definition store0 :: memStorage where
  "store0 = \<lparr> courts = seedCourts, sports = seedSports, bookings = [] \<rparr>"

definition request :: "string \<Rightarrow> string \<Rightarrow> string \<Rightarrow> int \<Rightarrow> int \<Rightarrow> insertBooking" where
  "request sp c t h a =
     \<lparr> name = ''Ahmed Khan'', phone = ''+92 300 1234567'', sportId = sp, courtId = c,
       date = ''2024-01-07'', startTime = t, hours = h, amount = a, status_in = None \<rparr>"

definition booking1 :: booking where
  "booking1 = new_booking ''id-1'' ''9f3c2a7e-1'' (request ''cricket'' ''court-a'' ''09:00'' 2 4000)"

definition store1 :: memStorage where
  "store1 = snd (post_booking amount_int32 True ''id-1'' ''9f3c2a7e-1'' (request ''cricket'' ''court-a'' ''09:00'' 2 4000) store0)"

text \<open>The store after a second accepted request, for court B on the day before.\<close>

definition booking2 :: booking where
  "booking2 = new_booking ''id-2'' ''5b1d44c0-2''
                ((request ''football'' ''court-b'' ''14:00'' 1 2500)\<lparr>date := ''2024-01-06''\<rparr>)"

definition store2 :: memStorage where
  "store2 = snd (post_booking amount_int32 True ''id-2'' ''5b1d44c0-2''
                   ((request ''football'' ''court-b'' ''14:00'' 1 2500)\<lparr>date := ''2024-01-06''\<rparr>) store1)"

text \<open>The seeded store of Sunday 2024-01-07, and the store after an accepted request
  for court A at 11:00, next to the seeded booking from 09:00 to 11:00.\<close>

definition seed_rnd :: "nat \<Rightarrow> string" where
  "seed_rnd k = ''seed-'' @ toString (int k)"

definition seeded :: memStorage where
  "seeded = MemStorage_new 19729 seed_rnd"







section \<open>Basic facts about the map operations\<close>

lemma map_of_map_set: "map_of (map_set k v m) = (map_of m)(k \<mapsto> v)"
  by (induction m) (auto simp: fun_eq_iff)

lemma map_get_map_set: "map_get (map_set k v m) k' = (if k' = k then Some v else map_get m k')"
  by (simp add: map_get_def map_of_map_set)

lemma keys_map_set_present: "map_of m k = Some w \<Longrightarrow> map fst (map_set k v m) = map fst m"
  by (induction m) (auto split: if_splits)

lemma values_map_set_subset: "set (map_values (map_set k v m)) \<subseteq> insert v (set (map_values m))"
  by (induction m) (auto simp: map_values_def)

lemma distinct_keys_map_set: "distinct (map fst m) \<Longrightarrow> distinct (map fst (map_set k v m))"
proof (induction m)
  case Nil
  show ?case by simp
next
  case (Cons p m)
  have keys: "set (map fst (map_set k v m)) \<subseteq> insert k (set (map fst m))"
    by (induction m) auto
  show ?case
  proof (cases "fst p = k")
    case True
    with Cons.prems show ?thesis by simp
  next
    case False
    with Cons keys show ?thesis by auto
  qed
qed

lemma check_loop_iff:
  "check_loop rs re bs =
     (\<forall>b \<in> set bs. \<not> slot_clash rs re (startHour (startTime b)) (js_plus (startHour (startTime b)) (hours b)))"
  by (induction bs) (auto simp: Let_def)

lemma slot_clash_int:
  "slot_clash (Some s1) (Some e1) (Some s2) (Some e2) =
     ((s2 \<le> s1 \<and> s1 < e2) \<or> (s2 < e1 \<and> e1 \<le> e2) \<or> (s1 \<le> s2 \<and> e2 \<le> e1))"
  by (simp add: slot_clash_def js_lt_def js_le_def js_gt_def js_ge_def)

lemma slot_clash_NaN [simp]:
  "slot_clash None None bs be = False" "slot_clash rs re None be = False"
  by (auto simp: slot_clash_def js_lt_def js_le_def js_gt_def js_ge_def js_plus_def split: option.splits)

lemma overlap_imp_slot_clash:
  "s1 < e2 \<Longrightarrow> s2 < e1 \<Longrightarrow> slot_clash (Some s1) (Some e1) (Some s2) (Some e2)"
  unfolding slot_clash_int by arith

lemma slot_clash_imp_overlap:
  "s1 < e1 \<Longrightarrow> s2 < e2 \<Longrightarrow> slot_clash (Some s1) (Some e1) (Some s2) (Some e2) \<Longrightarrow> s1 < e2 \<and> s2 < e1"
  unfolding slot_clash_int by arith

lemma checkSlotAvailability_iff:
  "checkSlotAvailability st c d t h =
     (\<not> js_lt (startHour t) (Some OPENING_HOUR) \<and>
      \<not> js_gt (js_plus (startHour t) h) (Some CLOSING_HOUR) \<and>
      (\<forall>b \<in> set (getBookingsForDateAndCourt st d c).
         \<not> slot_clash (startHour t) (js_plus (startHour t) h)
              (startHour (startTime b)) (js_plus (startHour (startTime b)) (hours b))))"
  by (simp add: checkSlotAvailability_def Let_def check_loop_iff)

section \<open>The overlap test\<close>

text \<open>
  Claim C3. For two half-open hour ranges \<open>[s1, e1)\<close> and \<open>[s2, e2)\<close> with
  \<open>s1 < e1\<close> and \<open>s2 < e2\<close>, the three-clause test of
  \<^verbatim>\<open>checkSlotAvailability\<close> holds exactly when \<open>s1 < e2\<close> and \<open>s2 < e1\<close>.
  Hence a request for \<open>[s1, e1)\<close> inside the opening window is refused exactly when
  some booked reservation of that court and date, of positive length, has a range
  \<open>[s2, s2 + hours)\<close> with \<open>s1 < s2 + hours\<close> and \<open>s2 < e1\<close>.
\<close>

theorem overlap_predicate_equiv:
  assumes "s1 < e1"
  shows "(\<forall>s2 e2. s2 < e2 \<longrightarrow>
            slot_clash (Some s1) (Some e1) (Some s2) (Some e2) = (s1 < e2 \<and> s2 < e1)) \<and>
         (\<forall>st c d t.
            startHour t = Some s1 \<and> OPENING_HOUR \<le> s1 \<and> e1 \<le> CLOSING_HOUR \<and>
            (\<forall>b \<in> set (getBookingsForDateAndCourt st d c). 0 < hours b) \<longrightarrow>
            (\<not> checkSlotAvailability st c d t (e1 - s1)) =
              (\<exists>b \<in> set (getBookingsForDateAndCourt st d c). \<exists>s2.
                 startHour (startTime b) = Some s2 \<and> s1 < s2 + hours b \<and> s2 < e1))"
proof -
  have eq: "slot_clash (Some s1) (Some e1) (Some s2) (Some e2) = (s1 < e2 \<and> s2 < e1)"
    if "s2 < e2" for s2 e2
    using assms that unfolding slot_clash_int by arith
  have one: "slot_clash (Some s1) (Some e1) (startHour (startTime b)) (js_plus (startHour (startTime b)) (hours b)) =
               (\<exists>s2. startHour (startTime b) = Some s2 \<and> s1 < s2 + hours b \<and> s2 < e1)"
    if "0 < hours b" for b :: booking
  proof (cases "startHour (startTime b)")
    case None
    then show ?thesis by simp
  next
    case (Some s2)
    with that eq [of s2 "s2 + hours b"] show ?thesis by (simp add: js_plus_def)
  qed
  have chk: "(\<not> checkSlotAvailability st c d t (e1 - s1)) =
              (\<exists>b \<in> set (getBookingsForDateAndCourt st d c). \<exists>s2.
                 startHour (startTime b) = Some s2 \<and> s1 < s2 + hours b \<and> s2 < e1)"
    if "startHour t = Some s1" "OPENING_HOUR \<le> s1" "e1 \<le> CLOSING_HOUR"
       "\<forall>b \<in> set (getBookingsForDateAndCourt st d c). 0 < hours b"
    for st c d t
    using that one by (auto simp: checkSlotAvailability_iff js_lt_def js_gt_def js_plus_def)
  from eq chk show ?thesis by blast
qed

theorem overlap_predicate_equiv_witness:
  "(10::int) < 11 \<and> slot_clash (Some 10) (Some 11) (Some 9) (Some 11) \<and>
   \<not> slot_clash (Some 10) (Some 11) (Some 11) (Some 12)"
  using overlap_predicate_equiv [of 10 11] by simp

lemma post_booking_rejected:
  "\<not> checkSlotAvailability st (courtId body) (date body) (startTime body) (hours body) \<Longrightarrow>
   \<exists>e. post_booking amount_ok authed r1 r2 body st = (Inl e, st)"
  by (simp add: post_booking_def)

section \<open>The opening window\<close>

text \<open>
  Claim C4. When the start hour of the request is below 6, or the start hour plus the
  hours is above 23, \<^verbatim>\<open>checkSlotAvailability\<close> returns false whatever the store
  holds, and the create route answers with an error and leaves the store as it was.
\<close>

theorem outside_opening_window_rejected:
  assumes "startHour t = Some s" and "s < 6 \<or> s + h > 23"
  shows "checkSlotAvailability st c d t h = False \<and>
         (\<forall>amount_ok authed r1 r2 body. courtId body = c \<and> date body = d \<and> startTime body = t \<and> hours body = h \<longrightarrow>
            (\<exists>e. post_booking amount_ok authed r1 r2 body st = (Inl e, st)))"
proof -
  have no: "\<not> checkSlotAvailability st c d t h"
    using assms
    by (auto simp: checkSlotAvailability_def OPENING_HOUR_def CLOSING_HOUR_def js_lt_def js_gt_def js_plus_def)
  then show ?thesis using post_booking_rejected by blast
qed

theorem outside_opening_window_rejected_witness:
  "startHour ''22:00'' = Some 22 \<and> (22::int) + 2 > 23 \<and>
   \<not> checkSlotAvailability store0 ''court-a'' ''2024-01-07'' ''22:00'' 2"
proof -
  have s: "startHour ''22:00'' = Some 22" by code_simp
  from outside_opening_window_rejected [OF s, of 2 store0 "''court-a''" "''2024-01-07''"] s
  show ?thesis by simp
qed

section \<open>The frame of a status update\<close>

text \<open>
  Claim C10. For an id that is in the store, \<^verbatim>\<open>updateBookingStatus\<close> returns
  the booking with the new status and all its other fields as they were, stores it
  under the same id, and leaves every other entry, the order of the keys, the courts
  and the sports unchanged. For an id that is not in the store it returns nothing and
  the store is unchanged.
\<close>

theorem updateBookingStatus_frame:
  "(case map_get (bookings st) i of
      None \<Rightarrow> updateBookingStatus i s st = (None, st)
    | Some b \<Rightarrow>
        (\<exists>u st'. updateBookingStatus i s st = (Some u, st') \<and>
           status u = s \<and> booking_id u = booking_id b \<and> uuid u = uuid b \<and> name u = name b \<and>
           phone u = phone b \<and> sportId u = sportId b \<and> courtId u = courtId b \<and>
           date u = date b \<and> startTime u = startTime b \<and> hours u = hours b \<and>
           amount u = amount b \<and>
           map_get (bookings st') i = Some u \<and>
           (\<forall>k. k \<noteq> i \<longrightarrow> map_get (bookings st') k = map_get (bookings st) k) \<and>
           map fst (bookings st') = map fst (bookings st) \<and>
           courts st' = courts st \<and> sports st' = sports st))"
proof (cases "map_get (bookings st) i")
  case None
  then show ?thesis by (simp add: updateBookingStatus_def)
next
  case (Some b)
  then have "map_of (bookings st) i = Some b" by (simp add: map_get_def)
  then have "map fst (map_set i (b\<lparr>status := s\<rparr>) (bookings st)) = map fst (bookings st)"
    by (rule keys_map_set_present)
  with Some show ?thesis
    by (simp add: updateBookingStatus_def Let_def map_get_map_set)
qed

theorem updateBookingStatus_frame_witness:
  "map_get (bookings store1) ''id-1'' = Some booking1 \<and>
   map_get (bookings store1) ''id-2'' = None \<and>
   updateBookingStatus ''id-2'' ''cancelled'' store1 = (None, store1) \<and>
   (\<exists>u st'. updateBookingStatus ''id-1'' ''cancelled'' store1 = (Some u, st') \<and>
      status u = ''cancelled'' \<and> amount u = amount booking1 \<and> uuid u = uuid booking1 \<and>
      map_get (bookings st') ''id-1'' = Some u)"
proof -
  have a: "map_get (bookings store1) ''id-1'' = Some booking1"
    by code_simp
  have b: "map_get (bookings store1) ''id-2'' = None"
    by code_simp
  from updateBookingStatus_frame [where st = store1 and i = "''id-1''" and s = "''cancelled''"] a
  have c: "\<exists>u st'. updateBookingStatus ''id-1'' ''cancelled'' store1 = (Some u, st') \<and>
      status u = ''cancelled'' \<and> amount u = amount booking1 \<and> uuid u = uuid booking1 \<and>
      map_get (bookings st') ''id-1'' = Some u"
    by simp blast
  from updateBookingStatus_frame [where st = store1 and i = "''id-2''" and s = "''cancelled''"] b
  have d: "updateBookingStatus ''id-2'' ''cancelled'' store1 = (None, store1)"
    by simp
  from a b c d show ?thesis by blast
qed

section \<open>Status changes\<close>

lemma getBooking_updateBookingStatus:
  "getBooking st i = Some b \<Longrightarrow>
   updateBookingStatus i s st = (Some (b\<lparr>status := s\<rparr>), st\<lparr>bookings := map_set i (b\<lparr>status := s\<rparr>) (bookings st)\<rparr>)"
  by (simp add: getBooking_def updateBookingStatus_def Let_def)

lemma post_cancel_found:
  "getBooking st i = Some b \<Longrightarrow>
   post_cancel True i st =
     (if status b = ''cancelled'' then (Inl AlreadyCancelled, st)
      else (Inr (Some (b\<lparr>status := ''cancelled''\<rparr>)),
            st\<lparr>bookings := map_set i (b\<lparr>status := ''cancelled''\<rparr>) (bookings st)\<rparr>))"
  by (simp add: post_cancel_def getBooking_updateBookingStatus)

lemma post_complete_found:
  "getBooking st i = Some b \<Longrightarrow>
   post_complete True i st =
     (if status b = ''cancelled'' then (Inl CannotCompleteCancelled, st)
      else (Inr (Some (b\<lparr>status := ''completed''\<rparr>)),
            st\<lparr>bookings := map_set i (b\<lparr>status := ''completed''\<rparr>) (bookings st)\<rparr>))"
  by (simp add: post_complete_def getBooking_updateBookingStatus)

text \<open>
  Claim C5, as amended. The cancel and the complete route refuse a stored booking only
  when its status is \<open>cancelled\<close>, and then leave the store as it was. From every
  other status, \<open>booked\<close> and also \<open>completed\<close>, cancel stores the status
  \<open>cancelled\<close> and complete stores the status \<open>completed\<close>.
\<close>

theorem status_transitions:
  assumes "getBooking st i = Some b"
  shows "(status b = ''cancelled'' \<longrightarrow>
            post_cancel True i st = (Inl AlreadyCancelled, st) \<and>
            post_complete True i st = (Inl CannotCompleteCancelled, st)) \<and>
         (status b \<noteq> ''cancelled'' \<longrightarrow>
            (\<exists>st'. post_cancel True i st = (Inr (Some (b\<lparr>status := ''cancelled''\<rparr>)), st') \<and>
                   getBooking st' i = Some (b\<lparr>status := ''cancelled''\<rparr>)) \<and>
            (\<exists>st'. post_complete True i st = (Inr (Some (b\<lparr>status := ''completed''\<rparr>)), st') \<and>
                   getBooking st' i = Some (b\<lparr>status := ''completed''\<rparr>)))"
  using assms
  by (simp add: post_cancel_found post_complete_found getBooking_def map_get_map_set)

theorem status_transitions_witness:
  "getBooking store1 ''id-1'' = Some booking1 \<and> status booking1 = ''booked'' \<and>
   (\<exists>st'. post_cancel True ''id-1'' store1 = (Inr (Some (booking1\<lparr>status := ''cancelled''\<rparr>)), st') \<and>
          getBooking st' ''id-1'' = Some (booking1\<lparr>status := ''cancelled''\<rparr>))"
proof -
  have a: "getBooking store1 ''id-1'' = Some booking1"
    by code_simp
  have b: "status booking1 = ''booked''"
    by (simp add: booking1_def new_booking_def mk_booking_def request_def)
  from status_transitions [OF a] a b show ?thesis by simp
qed

text \<open>
  Claim C5 as stated fails: after a booking is completed, cancelling it is accepted and
  stores \<open>cancelled\<close>, while completing after cancelling is refused.
\<close>

theorem cancel_after_complete_accepted:
  "fst (post_complete True ''id-1'' store1) = Inr (Some (booking1\<lparr>status := ''completed''\<rparr>)) \<and>
   fst (post_cancel True ''id-1'' (snd (post_complete True ''id-1'' store1))) =
     Inr (Some (booking1\<lparr>status := ''cancelled''\<rparr>)) \<and>
   fst (post_complete True ''id-1'' (snd (post_cancel True ''id-1'' store1))) =
     Inl CannotCompleteCancelled"
  by code_simp

section \<open>The amount of a booking\<close>

text \<open>
  Claim C6 as stated fails: the create route accepts a request for two hours of cricket
  (2000 per hour) with the amount 1 and stores that amount.
\<close>

theorem create_route_amount_unchecked:
  "(case fst (post_booking amount_int32 True ''id-2'' ''5b1d44c0-2'' (request ''cricket'' ''court-a'' ''11:00'' 2 1) store1) of
      Inl e \<Rightarrow> False
    | Inr b \<Rightarrow> amount b = 1 \<and> hours b = 2 \<and>
        map_option pricePerHour (map_get (sports store1) (sportId b)) = Some 2000)"
  by code_simp


lemma post_booking_created:
  "post_booking amount_ok authed r1 r2 body st = (Inr b, st') \<Longrightarrow>
   authed \<and> insertBookingSchema_ok amount_ok body \<and>
   checkSlotAvailability st (courtId body) (date body) (startTime body) (hours body) \<and>
   b = new_booking r1 r2 body \<and> st' = st\<lparr>bookings := map_set r1 b (bookings st)\<rparr>"
  by (auto simp: post_booking_def createBooking_def Let_def split: if_splits)

lemma new_booking_fields [simp]:
  "name (new_booking r1 r2 body) = name body"
  "phone (new_booking r1 r2 body) = phone body"
  "sportId (new_booking r1 r2 body) = sportId body"
  "courtId (new_booking r1 r2 body) = courtId body"
  "date (new_booking r1 r2 body) = date body"
  "startTime (new_booking r1 r2 body) = startTime body"
  "hours (new_booking r1 r2 body) = hours body"
  "amount (new_booking r1 r2 body) = amount body"
  "booking_id (new_booking r1 r2 body) = r1"
  "uuid (new_booking r1 r2 body) = short_ref r2"
  by (simp_all add: new_booking_def mk_booking_def)

lemma amount_post_cancel:
  "map_option amount (getBooking (snd (post_cancel authed i st)) k) = map_option amount (getBooking st k)"
proof (cases "getBooking st i")
  case None
  then show ?thesis by (simp add: post_cancel_def)
next
  case (Some b)
  show ?thesis
  proof (cases authed)
    case True
    with post_cancel_found [OF Some] Some show ?thesis
      by (auto simp: getBooking_def map_get_map_set)
  next
    case False
    then show ?thesis by (simp add: post_cancel_def)
  qed
qed

lemma amount_post_complete:
  "map_option amount (getBooking (snd (post_complete authed i st)) k) = map_option amount (getBooking st k)"
proof (cases "getBooking st i")
  case None
  then show ?thesis by (simp add: post_complete_def)
next
  case (Some b)
  show ?thesis
  proof (cases authed)
    case True
    with post_complete_found [OF Some] Some show ?thesis
      by (auto simp: getBooking_def map_get_map_set)
  next
    case False
    then show ?thesis by (simp add: post_complete_def)
  qed
qed

text \<open>
  Claim C6, as amended. A booking that the create route stores carries the amount of
  the request body. For a body built by the booking form with a sport it found, that
  amount is the sport's price per hour times the hours. Later cancel and complete
  requests, and a change of the sports, leave the stored amount as it is.
\<close>

theorem amount_stored_as_sent:
  assumes "post_booking amount_ok authed r1 r2 body st = (Inr b, st')"
  shows "amount b = amount body \<and> getBooking st' r1 = Some b \<and>
         (\<forall>sps c d t n p sp h s.
            body = bookingForm_request sps c d t n p sp h \<and> find (\<lambda>s. sport_id s = sp) sps = Some s \<longrightarrow>
            amount b = pricePerHour s * hours b) \<and>
         (\<forall>a i. map_option amount (getBooking (snd (post_cancel a i st')) r1) = Some (amount body)) \<and>
         (\<forall>a i. map_option amount (getBooking (snd (post_complete a i st')) r1) = Some (amount body)) \<and>
         (\<forall>sps. getBooking (st'\<lparr>sports := sps\<rparr>) r1 = Some b)"
proof -
  from post_booking_created [OF assms]
  have b: "b = new_booking r1 r2 body" and st': "st' = st\<lparr>bookings := map_set r1 b (bookings st)\<rparr>"
    by simp_all
  have 1: "amount b = amount body" by (simp add: b)
  have 2: "getBooking st' r1 = Some b" by (simp add: st' getBooking_def map_get_map_set)
  have 3: "amount b = pricePerHour s * hours b"
    if "body = bookingForm_request sps c d t n p sp h" "find (\<lambda>s. sport_id s = sp) sps = Some s"
    for sps c d t n p sp h s
    using that by (simp add: b bookingForm_request_def calculatedAmount_def)
  have 4: "map_option amount (getBooking (snd (post_cancel a i st')) r1) = Some (amount body)" for a i
    by (simp add: amount_post_cancel 2 1)
  have 5: "map_option amount (getBooking (snd (post_complete a i st')) r1) = Some (amount body)" for a i
    by (simp add: amount_post_complete 2 1)
  have 6: "getBooking (st'\<lparr>sports := sps\<rparr>) r1 = Some b" for sps
    using 2 by (simp add: getBooking_def)
  from 1 2 3 4 5 6 show ?thesis by blast
qed

theorem amount_stored_as_sent_witness:
  "post_booking amount_int32 True ''id-1'' ''9f3c2a7e-1'' (request ''cricket'' ''court-a'' ''09:00'' 2 4000) store0 = (Inr booking1, store1) \<and>
   amount booking1 = 4000 \<and>
   map_option amount (getBooking (snd (post_complete True ''id-1'' store1)) ''id-1'') = Some 4000"
proof -
  have a: "post_booking amount_int32 True ''id-1'' ''9f3c2a7e-1'' (request ''cricket'' ''court-a'' ''09:00'' 2 4000) store0 = (Inr booking1, store1)"
    by code_simp
  have r: "amount (request ''cricket'' ''court-a'' ''09:00'' 2 4000) = 4000"
    by (simp add: request_def)
  from amount_stored_as_sent [OF a] a r show ?thesis by simp
qed


section \<open>The day grid of a court\<close>

lemma map_get_slots_foldl:
  "map_get (foldl (\<lambda>slots c. map_set (court_id c) (f (court_id c)) slots) acc cs) k =
     (if k \<in> court_id ` set cs then Some (f k) else map_get acc k)"
  by (induction cs arbitrary: acc) (auto simp: map_get_map_set)

lemma bookedHours_iff:
  "(Some h \<in> bookedHours bs) =
     (\<exists>b \<in> set bs. \<exists>s. startHour (startTime b) = Some s \<and> s \<le> h \<and> h < s + hours b)"
proof
  assume "Some h \<in> bookedHours bs"
  then obtain b k where b: "b \<in> set bs" and k: "0 \<le> k" "k \<le> hours b - 1"
    and eq: "Some h = js_plus (startHour (startTime b)) k"
    by (auto simp: bookedHours_def)
  from eq obtain s where s: "startHour (startTime b) = Some s" and h: "h = s + k"
    by (auto simp: js_plus_def split: option.splits)
  from s h k have "startHour (startTime b) = Some s \<and> s \<le> h \<and> h < s + hours b"
    by simp
  with b show "\<exists>b \<in> set bs. \<exists>s. startHour (startTime b) = Some s \<and> s \<le> h \<and> h < s + hours b"
    by blast
next
  assume "\<exists>b \<in> set bs. \<exists>s. startHour (startTime b) = Some s \<and> s \<le> h \<and> h < s + hours b"
  then obtain b s where b: "b \<in> set bs" and s: "startHour (startTime b) = Some s"
    and r: "s \<le> h" "h < s + hours b"
    by blast
  from r have "h - s \<in> set [0..hours b - 1]" by simp
  moreover from s have "js_plus (startHour (startTime b)) (h - s) = Some h"
    by (simp add: js_plus_def)
  ultimately have "Some h \<in> set (map (\<lambda>k. js_plus (startHour (startTime b)) k) [0..hours b - 1])"
    by (metis image_eqI set_map)
  with b show "Some h \<in> bookedHours bs"
    unfolding bookedHours_def by blast
qed

lemma courtSlots_length: "length (courtSlots bs) = 17"
  by (simp add: courtSlots_def OPENING_HOUR_def CLOSING_HOUR_def)

lemma map_upto_nth: "lo \<le> h \<Longrightarrow> h \<le> hi \<Longrightarrow> map f [lo..hi] ! nat (h - lo) = f h"
  by simp

lemma courtSlots_nth:
  "6 \<le> h \<Longrightarrow> h < 23 \<Longrightarrow> courtSlots bs ! nat (h - 6) = court_slot bs h"
  unfolding courtSlots_def OPENING_HOUR_def CLOSING_HOUR_def
  using map_upto_nth [of 6 h "23 - 1" "court_slot bs"] by simp

text \<open>
  Claim C7, as amended. For every court of the store, the grid of a date has 17 slots,
  one for each hour from 6 to 22, with the time token of that hour. The slot of an hour
  is unavailable exactly when a booked reservation of that court and date spans the
  hour. The slot carries the id of the first booked reservation of that court and date
  that starts at its hour, and no id when none starts there.
\<close>

theorem dayGrid_slots:
  assumes "c \<in> set (map_values (courts st))"
  shows "\<exists>sl. map_get (snd (snd (getAvailability st d))) (court_id c) = Some sl \<and>
           length sl = 17 \<and>
           (\<forall>h. 6 \<le> h \<and> h < 23 \<longrightarrow>
              time (sl ! nat (h - 6)) = padStart 2 (CHR ''0'') (toString h) @ '':00'' \<and>
              available (sl ! nat (h - 6)) =
                (\<not> (\<exists>b \<in> set (getBookingsForDateAndCourt st d (court_id c)). \<exists>s.
                       startHour (startTime b) = Some s \<and> s \<le> h \<and> h < s + hours b)) \<and>
              bookingId (sl ! nat (h - 6)) =
                map_option booking_id
                  (find (\<lambda>b. startHour (startTime b) = Some h)
                     (getBookingsForDateAndCourt st d (court_id c))))"
proof -
  let ?bs = "getBookingsForDateAndCourt st d (court_id c)"
  from assms have "court_id c \<in> court_id ` set (map_values (courts st))" by simp
  then have sl: "map_get (snd (snd (getAvailability st d))) (court_id c) = Some (courtSlots ?bs)"
    using map_get_slots_foldl [where f = "\<lambda>k. courtSlots (getBookingsForDateAndCourt st d k)"
        and acc = "[]" and cs = "map_values (courts st)" and k = "court_id c"]
    by (simp add: getAvailability_def Let_def)
  have each: "time (courtSlots ?bs ! nat (h - 6)) = padStart 2 (CHR ''0'') (toString h) @ '':00'' \<and>
              available (courtSlots ?bs ! nat (h - 6)) =
                (\<not> (\<exists>b \<in> set ?bs. \<exists>s. startHour (startTime b) = Some s \<and> s \<le> h \<and> h < s + hours b)) \<and>
              bookingId (courtSlots ?bs ! nat (h - 6)) =
                map_option booking_id (find (\<lambda>b. startHour (startTime b) = Some h) ?bs)"
    if "6 \<le> h" "h < 23" for h
    using that by (simp add: courtSlots_nth court_slot_def bookedHours_iff)
  from sl each courtSlots_length [of ?bs] show ?thesis by blast
qed

theorem dayGrid_slots_witness:
  "\<lparr>court_id = ''court-a'', court_name = ''Court A''\<rparr> \<in> set (map_values (courts store1)) \<and>
   (\<exists>sl. map_get (snd (snd (getAvailability store1 ''2024-01-07''))) ''court-a'' = Some sl \<and>
      length sl = 17 \<and> time (sl ! 3) = ''09:00'' \<and> \<not> available (sl ! 3) \<and> \<not> available (sl ! 4) \<and>
      bookingId (sl ! 3) = Some ''id-1'')"
proof -
  have c: "\<lparr>court_id = ''court-a'', court_name = ''Court A''\<rparr> \<in> set (map_values (courts store1))"
    by code_simp
  have bs: "getBookingsForDateAndCourt store1 ''2024-01-07'' ''court-a'' = [booking1]"
    by code_simp
  have b1: "startHour (startTime booking1) = Some 9" "hours booking1 = 2" "booking_id booking1 = ''id-1''"
    by code_simp+
  have t: "padStart 2 (CHR ''0'') (toString 9) @ '':00'' = ''09:00''"
    by code_simp
  from dayGrid_slots [OF c, of "''2024-01-07''"]
  obtain sl where sl: "map_get (snd (snd (getAvailability store1 ''2024-01-07''))) ''court-a'' = Some sl"
    and len: "length sl = 17"
    and each: "\<And>h. 6 \<le> h \<Longrightarrow> h < 23 \<Longrightarrow>
              time (sl ! nat (h - 6)) = padStart 2 (CHR ''0'') (toString h) @ '':00'' \<and>
              available (sl ! nat (h - 6)) =
                (\<not> (\<exists>b \<in> set (getBookingsForDateAndCourt store1 ''2024-01-07'' ''court-a''). \<exists>s.
                       startHour (startTime b) = Some s \<and> s \<le> h \<and> h < s + hours b)) \<and>
              bookingId (sl ! nat (h - 6)) =
                map_option booking_id
                  (find (\<lambda>b. startHour (startTime b) = Some h)
                     (getBookingsForDateAndCourt store1 ''2024-01-07'' ''court-a''))"
    by auto
  from each [of 9] bs b1 t have 9: "time (sl ! 3) = ''09:00''" "\<not> available (sl ! 3)" "bookingId (sl ! 3) = Some ''id-1''"
    by simp_all
  from each [of 10] bs b1 have 10: "\<not> available (sl ! 4)"
    by simp
  from c sl len 9 10 show ?thesis by blast
qed

text \<open>
  Claim C7 as stated fails: with one booked reservation at 09:00 for two hours, the slot
  of 10:00 is unavailable and carries no booking id.
\<close>

theorem occupied_slot_without_booking_id:
  "(case map_get (snd (snd (getAvailability store1 ''2024-01-07''))) ''court-a'' of
      None \<Rightarrow> False
    | Some sl \<Rightarrow> time (sl ! 4) = ''10:00'' \<and> available (sl ! 4) = False \<and> bookingId (sl ! 4) = None) \<and>
   getBookingsForDateAndCourt store1 ''2024-01-07'' ''court-a'' = [booking1] \<and>
   startHour (startTime booking1) = Some 9 \<and> hours booking1 = 2 \<and> status booking1 = ''booked''"
  by code_simp


section \<open>The week revenue\<close>

lemma store2_eq:
  "store2 = \<lparr> courts = seedCourts, sports = seedSports,
              bookings = [(''id-1'', booking1), (''id-2'', booking2)] \<rparr>"
  by code_simp

lemma booking1_eq:
  "booking1 = \<lparr> name = ''Ahmed Khan'', phone = ''+92 300 1234567'', sportId = ''cricket'',
       courtId = ''court-a'', date = ''2024-01-07'', startTime = ''09:00'', hours = 2, amount = 4000,
       booking_id = ''id-1'', uuid = ''9F3C2A7E'', status = ''booked'' \<rparr>"
  by code_simp

lemma booking2_eq:
  "booking2 = \<lparr> name = ''Ahmed Khan'', phone = ''+92 300 1234567'', sportId = ''football'',
       courtId = ''court-b'', date = ''2024-01-06'', startTime = ''14:00'', hours = 1, amount = 2500,
       booking_id = ''id-2'', uuid = ''5B1D44C0'', status = ''booked'' \<rparr>"
  by code_simp

lemma format_date_examples:
  "format_date 19729 = ''2024-01-07''" "format_date 19728 = ''2024-01-06''"
  "format_date 19727 = ''2024-01-05''" "format_date 19726 = ''2024-01-04''"
  "format_date 19725 = ''2024-01-03''" "format_date 19724 = ''2024-01-02''"
  "format_date 19723 = ''2024-01-01''"
  by code_simp+

lemma startOfWeek_examples:
  "startOfWeek 0 19729 = 19729" "startOfWeek 1 19729 = 19723" "getDay 19729 = 0"
  by (simp_all add: startOfWeek_def getDay_def)

lemma str_ge_examples:
  "str_ge ''2024-01-07'' ''2024-01-07''" "\<not> str_ge ''2024-01-06'' ''2024-01-07''"
  "str_ge ''2024-01-07'' ''2024-01-01''" "str_ge ''2024-01-06'' ''2024-01-01''"
  by (simp_all add: str_ge_def)

lemma foldl_amount: "foldl (\<lambda>sum b. sum + amount b) a bs = a + sum_list (map amount bs)"
  by (induction bs arbitrary: a) simp_all

lemma sum_amount_sum_list: "sum_amount bs = sum_list (map amount bs)"
  by (simp add: sum_amount_def foldl_amount)

lemma spec_weekRevenue_store2:
  "spec_weekRevenue 0 19729 store2 = 4000" "spec_weekRevenue 1 19729 store2 = 6500"
  by (simp_all add: spec_weekRevenue_def store2_eq map_values_def booking1_eq booking2_eq
        startOfWeek_examples format_date_examples str_ge_examples)

lemma weekRevenue_store2: "weekRevenue (getDashboardMetrics 19729 store2) = 4000"
  by (simp add: getDashboardMetrics_def Let_def sum_amount_sum_list store2_eq map_values_def
        booking1_eq booking2_eq startOfWeek_examples format_date_examples str_ge_examples)

lemma startOfWeek_sunday:
  "getDay (startOfWeek 0 now) = 0 \<and> now - 6 \<le> startOfWeek 0 now \<and> startOfWeek 0 now \<le> now"
  unfolding startOfWeek_def getDay_def Let_def by (simp; presburger)

text \<open>
  Claim C9, as amended. The week revenue is the sum of the amounts of the bookings whose
  status is \<open>booked\<close> or \<open>completed\<close> and whose date string is not below the
  formatted start of the current week, where the week starts on Sunday: the start is a
  Sunday among today and the six days before. A cancelled booking adds nothing.
\<close>

theorem weekRevenue_sunday_week:
  "weekRevenue (getDashboardMetrics now st) = spec_weekRevenue 0 now st \<and>
   getDay (startOfWeek 0 now) = 0 \<and> now - 6 \<le> startOfWeek 0 now \<and> startOfWeek 0 now \<le> now \<and>
   (\<forall>k b. status b = ''cancelled'' \<longrightarrow>
      weekRevenue (getDashboardMetrics now (st\<lparr>bookings := bookings st @ [(k, b)]\<rparr>)) =
      weekRevenue (getDashboardMetrics now st))"
proof -
  have a: "weekRevenue (getDashboardMetrics now st) = spec_weekRevenue 0 now st"
    by (simp add: getDashboardMetrics_def Let_def spec_weekRevenue_def sum_amount_sum_list conj_commute)
  have c: "weekRevenue (getDashboardMetrics now (st\<lparr>bookings := bookings st @ [(k, b)]\<rparr>)) =
           weekRevenue (getDashboardMetrics now st)"
    if "status b = ''cancelled''" for k b
    using that by (simp add: getDashboardMetrics_def Let_def map_values_def)
  from a c startOfWeek_sunday [of now] show ?thesis by blast
qed

theorem weekRevenue_sunday_week_witness:
  "weekRevenue (getDashboardMetrics 19729 store2) = 4000 \<and> getDay (startOfWeek 0 19729) = 0"
  using weekRevenue_sunday_week [of 19729 store2] by (simp add: spec_weekRevenue_store2)

text \<open>
  Claim C9 as stated fails. On Sunday 2024-01-07 the week that starts on Monday began on
  2024-01-01, and a booking of 2500 on Saturday 2024-01-06 lies in it, next to one of 4000
  on the Sunday: the claimed total is 6500, the metric is 4000.
\<close>

theorem week_does_not_start_on_monday:
  "format_date 19729 = ''2024-01-07'' \<and> getDay 19729 = 0 \<and>
   format_date (startOfWeek 1 19729) = ''2024-01-01'' \<and>
   map (\<lambda>b. (date b, amount b, status b)) (map_values (bookings store2)) =
     [(''2024-01-07'', 4000, ''booked''), (''2024-01-06'', 2500, ''booked'')] \<and>
   spec_weekRevenue 1 19729 store2 = 6500 \<and>
   weekRevenue (getDashboardMetrics 19729 store2) = 4000"
proof -
  have "map (\<lambda>b. (date b, amount b, status b)) (map_values (bookings store2)) =
          [(''2024-01-07'', 4000, ''booked''), (''2024-01-06'', 2500, ''booked'')]"
    by (simp add: store2_eq map_values_def booking1_eq booking2_eq)
  then show ?thesis
    by (simp add: format_date_examples startOfWeek_examples spec_weekRevenue_store2
          weekRevenue_store2)
qed


section \<open>No double booking\<close>

lemma map_set_cases:
  "(k \<notin> fst ` set m \<and> map_set k v m = m @ [(k, v)]) \<or>
   (\<exists>xs w ys. m = xs @ (k, w) # ys \<and> k \<notin> fst ` set xs \<and> map_of m k = Some w \<and>
      map_set k v m = xs @ (k, v) # ys)"
proof (induction m)
  case Nil
  show ?case by simp
next
  case (Cons p m)
  show ?case
  proof (cases "fst p = k")
    case True
    then have "p # m = [] @ (k, snd p) # m \<and> k \<notin> fst ` set [] \<and> map_of (p # m) k = Some (snd p) \<and>
               map_set k v (p # m) = [] @ (k, v) # m"
      by (cases p) auto
    then show ?thesis by blast
  next
    case False
    from Cons.IH show ?thesis
    proof
      assume "k \<notin> fst ` set m \<and> map_set k v m = m @ [(k, v)]"
      with False show ?thesis by auto
    next
      assume "\<exists>xs w ys. m = xs @ (k, w) # ys \<and> k \<notin> fst ` set xs \<and> map_of m k = Some w \<and>
                map_set k v m = xs @ (k, v) # ys"
      then obtain xs w ys where m: "m = xs @ (k, w) # ys" and k: "k \<notin> fst ` set xs"
        and w: "map_of m k = Some w" and s: "map_set k v m = xs @ (k, v) # ys"
        by blast
      from False m k w s
      have "p # m = (p # xs) @ (k, w) # ys \<and> k \<notin> fst ` set (p # xs) \<and>
            map_of (p # m) k = Some w \<and> map_set k v (p # m) = (p # xs) @ (k, v) # ys"
        by (cases p) auto
      then show ?thesis by blast
    qed
  qed
qed

lemma double_booked_sym: "double_booked a b = double_booked b a"
  by (auto simp: double_booked_def fields_clash_def ranges_conflict_def)

lemma no_double_booking_map_set:
  assumes inv: "no_double_booking m"
    and new: "\<forall>x \<in> set (map_values m). \<not> double_booked x v"
  shows "no_double_booking (map_set k v m)"
proof -
  from new have new': "\<forall>x \<in> set (map_values m). \<not> double_booked v x"
    using double_booked_sym by blast
  from map_set_cases [of k m v] show ?thesis
  proof
    assume "k \<notin> fst ` set m \<and> map_set k v m = m @ [(k, v)]"
    with inv new show ?thesis
      by (simp add: no_double_booking_def map_values_def sorted_wrt_append)
  next
    assume "\<exists>xs w ys. m = xs @ (k, w) # ys \<and> k \<notin> fst ` set xs \<and> map_of m k = Some w \<and>
              map_set k v m = xs @ (k, v) # ys"
    then obtain xs w ys where m: "m = xs @ (k, w) # ys" and s: "map_set k v m = xs @ (k, v) # ys"
      by blast
    from inv new new' show ?thesis
      unfolding s unfolding m
      by (auto simp: no_double_booking_def map_values_def sorted_wrt_append)
  qed
qed

lemma in_window_map_set:
  "list_all in_window (map_values m) \<Longrightarrow> in_window v \<Longrightarrow> list_all in_window (map_values (map_set k v m))"
  using values_map_set_subset [of k v m] by (auto simp: list_all_iff)

lemma map_get_in_values: "map_get m k = Some b \<Longrightarrow> b \<in> set (map_values m)"
  by (auto simp: map_get_def map_values_def dest: map_of_SomeD intro: rev_image_eqI)

lemma check_no_double_booking:
  assumes chk: "checkSlotAvailability st (courtId body) (date body) (startTime body) (hours body)"
    and x: "x \<in> set (map_values (bookings st))"
  shows "\<not> double_booked x (new_booking r1 r2 body)"
proof
  assume db: "double_booked x (new_booking r1 r2 body)"
  then have mem: "x \<in> set (getBookingsForDateAndCourt st (date body) (courtId body))"
    using x by (simp add: double_booked_def fields_clash_def getBookingsForDateAndCourt_def)
  from db obtain s1 s2 where s1: "startHour (startTime x) = Some s1"
    and s2: "startHour (startTime body) = Some s2"
    and lt: "s1 < s2 + hours body" "s2 < s1 + hours x"
    by (auto simp: double_booked_def fields_clash_def ranges_conflict_def js_lt_def js_plus_def
        split: option.splits)
  from lt have "slot_clash (Some s2) (Some (s2 + hours body)) (Some s1) (Some (s1 + hours x))"
    by (intro overlap_imp_slot_clash)
  moreover from chk mem
  have "\<not> slot_clash (startHour (startTime body)) (js_plus (startHour (startTime body)) (hours body))
           (startHour (startTime x)) (js_plus (startHour (startTime x)) (hours x))"
    by (simp add: checkSlotAvailability_iff)
  ultimately show False by (simp add: s1 s2 js_plus_def)
qed

lemma check_in_window:
  assumes "insertBookingSchema_ok amount_ok body"
    and "checkSlotAvailability st (courtId body) (date body) (startTime body) (hours body)"
  shows "in_window (new_booking r1 r2 body)"
  using assms
  by (auto simp: in_window_def insertBookingSchema_ok_def checkSlotAvailability_iff js_lt_def
      js_gt_def js_plus_def split: option.splits)

lemma store_ok_post_booking:
  assumes "store_ok st"
  shows "store_ok (snd (post_booking amount_ok authed r1 r2 body st))"
proof (cases "authed \<and> insertBookingSchema_ok amount_ok body \<and>
    checkSlotAvailability st (courtId body) (date body) (startTime body) (hours body)")
  case False
  with assms show ?thesis by (auto simp: post_booking_def)
next
  case True
  then have st': "snd (post_booking amount_ok authed r1 r2 body st) =
      st\<lparr>bookings := map_set r1 (new_booking r1 r2 body) (bookings st)\<rparr>"
    by (simp add: post_booking_def createBooking_def Let_def)
  from True have "\<forall>x \<in> set (map_values (bookings st)). \<not> double_booked x (new_booking r1 r2 body)"
    using check_no_double_booking by blast
  moreover from True have "in_window (new_booking r1 r2 body)"
    using check_in_window by blast
  ultimately show ?thesis
    using assms unfolding st'
    by (simp add: store_ok_def no_double_booking_map_set in_window_map_set)
qed

lemma store_ok_updateBookingStatus:
  assumes "store_ok st" and "s \<noteq> ''booked''"
  shows "store_ok (snd (updateBookingStatus i s st))"
proof (cases "map_get (bookings st) i")
  case None
  with assms show ?thesis by (simp add: updateBookingStatus_def)
next
  case (Some b)
  then have "in_window b"
    using assms(1) map_get_in_values [OF Some] by (simp add: store_ok_def list_all_iff)
  then have w: "in_window (b\<lparr>status := s\<rparr>)"
    by (auto simp: in_window_def split: option.splits)
  have d: "\<forall>x \<in> set (map_values (bookings st)). \<not> double_booked x (b\<lparr>status := s\<rparr>)"
    using assms(2) by (simp add: double_booked_def)
  from assms(1) Some w d show ?thesis
    by (simp add: updateBookingStatus_def Let_def store_ok_def no_double_booking_map_set in_window_map_set)
qed

lemma store_ok_post_cancel: "store_ok st \<Longrightarrow> store_ok (snd (post_cancel authed i st))"
  using store_ok_updateBookingStatus [of st "''cancelled''" i]
  by (auto simp: post_cancel_def split: option.splits prod.splits)

lemma store_ok_post_complete: "store_ok st \<Longrightarrow> store_ok (snd (post_complete authed i st))"
  using store_ok_updateBookingStatus [of st "''completed''" i]
  by (auto simp: post_complete_def split: option.splits prod.splits)

lemma reachable_store_ok: "reachable s0 st \<Longrightarrow> store_ok s0 \<Longrightarrow> store_ok st"
  by (induction rule: reachable.induct)
     (simp_all add: store_ok_post_booking store_ok_post_cancel store_ok_post_complete)


lemma startHour_samples:
  "startHour ''07:00'' = Some 7" "startHour ''08:00'' = Some 8" "startHour ''09:00'' = Some 9"
  "startHour ''10:00'' = Some 10" "startHour ''11:00'' = Some 11" "startHour ''12:00'' = Some 12"
  "startHour ''14:00'' = Some 14" "startHour ''15:00'' = Some 15" "startHour ''16:00'' = Some 16"
  "startHour ''17:00'' = Some 17" "startHour ''18:00'' = Some 18" "startHour ''19:00'' = Some 19"
  "startHour ''20:00'' = Some 20"
  by code_simp+

lemma mk_booking_fields [simp]:
  "courtId (mk_booking i u b s) = courtId b" "date (mk_booking i u b s) = date b"
  "startTime (mk_booking i u b s) = startTime b" "hours (mk_booking i u b s) = hours b"
  "amount (mk_booking i u b s) = amount b" "status (mk_booking i u b s) = s"
  by (simp_all add: mk_booking_def)

lemma double_booked_mk_booking:
  "double_booked (mk_booking i u a ''booked'') (mk_booking j w b ''booked'') = fields_clash a b"
  by (simp add: double_booked_def fields_clash_def)

lemma in_window_mk_booking: "in_window (mk_booking i u b s) = in_window b"
  by (simp add: in_window_def cong: option.case_cong)

lemma seedBookings_ok:
  assumes "no_double_booking m" and "list_all in_window (map_values m)"
    and "sorted_wrt (\<lambda>a b. \<not> fields_clash a b) bs" and "list_all in_window bs"
    and "\<forall>x \<in> set (map_values m). \<forall>b \<in> set bs. \<forall>i u. \<not> double_booked x (mk_booking i u b ''booked'')"
  shows "no_double_booking (seedBookings rnd k bs m) \<and>
         list_all in_window (map_values (seedBookings rnd k bs m))"
  using assms
proof (induction bs arbitrary: k m)
  case Nil
  then show ?case by simp
next
  case (Cons b bs)
  let ?v = "mk_booking (rnd (2 * k)) (short_ref (rnd (2 * k + 1))) b ''booked''"
  let ?m = "map_set (rnd (2 * k)) ?v m"
  have 1: "no_double_booking ?m"
    using Cons.prems(1,5) by (intro no_double_booking_map_set) auto
  have 2: "list_all in_window (map_values ?m)"
    using Cons.prems(2,4) by (intro in_window_map_set) (simp_all add: in_window_mk_booking)
  have 3: "sorted_wrt (\<lambda>a b. \<not> fields_clash a b) bs" and 4: "list_all in_window bs"
    using Cons.prems(3,4) by simp_all
  have 5: "\<forall>x \<in> set (map_values ?m). \<forall>c \<in> set bs. \<forall>i u. \<not> double_booked x (mk_booking i u c ''booked'')"
  proof (intro ballI allI)
    fix x c i u
    assume x: "x \<in> set (map_values ?m)" and c: "c \<in> set bs"
    from x values_map_set_subset [of "rnd (2 * k)" ?v m]
    have "x = ?v \<or> x \<in> set (map_values m)" by auto
    then show "\<not> double_booked x (mk_booking i u c ''booked'')"
    proof
      assume "x = ?v"
      with Cons.prems(3) c show ?thesis by (simp add: double_booked_mk_booking)
    next
      assume "x \<in> set (map_values m)"
      with Cons.prems(5) c show ?thesis by simp
    qed
  qed
  from Cons.IH [OF 1 2 3 4 5] show ?case by simp
qed

subsection \<open>The seven seed dates are distinct\<close>

lemma years_ok: "list_all year_ok [0..399]"
  by code_simp

lemma doys_ok: "list_all doy_ok [0..365]"
  by code_simp

lemma year_ok: "0 \<le> y \<Longrightarrow> y \<le> 399 \<Longrightarrow> year_ok y"
  using years_ok by (simp add: list_all_iff)

lemma doy_ok: "0 \<le> doy \<Longrightarrow> doy \<le> 365 \<Longrightarrow> doy_ok doy"
  using doys_ok by (simp add: list_all_iff)


lemma div_step_le:
  fixes a b :: int
  assumes "a \<le> b"
  shows "b div 1460 - a div 1460 \<le> b - a"
proof (cases "b div 1460 = a div 1460")
  case True
  with assms show ?thesis by simp
next
  case False
  from assms have "a div 1460 \<le> b div 1460" by (rule zdiv_mono1) simp
  with False have t: "a div 1460 + 1 \<le> b div 1460" by simp
  have "b = 1460 * (b div 1460) + b mod 1460" "a = 1460 * (a div 1460) + a mod 1460"
    by simp_all
  moreover have "0 \<le> b mod 1460" "a mod 1460 < 1460" by simp_all
  ultimately show ?thesis using t by linarith
qed

lemma div_era_le:
  fixes a b :: int
  assumes "0 \<le> a" "a \<le> b" "b \<le> 146096"
  shows "b div 146096 - a div 146096 \<le> b div 36524 - a div 36524"
proof (cases "b = 146096")
  case False
  with assms have "b div 146096 = 0" "a div 146096 = 0" by simp_all
  moreover from assms have "a div 36524 \<le> b div 36524" by (intro zdiv_mono1) simp_all
  ultimately show ?thesis by simp
next
  case True
  show ?thesis
  proof (cases "a = 146096")
    case True
    with \<open>b = 146096\<close> show ?thesis by simp
  next
    case False
    with assms True have "a div 146096 = 0" "a div 36524 \<le> 3" by simp_all
    with True show ?thesis by simp
  qed
qed

lemma year_of_era_mono:
  assumes "0 \<le> a" "a \<le> b" "b \<le> 146096"
  shows "year_of_era a \<le> year_of_era b"
  unfolding year_of_era_def
  using div_step_le [OF assms(2)] div_era_le [OF assms]
  by (intro zdiv_mono1) simp_all

lemma days_before_year_next:
  "0 \<le> y \<Longrightarrow> y < 399 \<Longrightarrow> days_before_year (y + 1) = last_of_year y + 1"
  by (simp add: last_of_year_def)

lemma year_exists_upto:
  "0 \<le> doe \<Longrightarrow> doe \<le> last_of_year (int k) \<Longrightarrow> k \<le> 399 \<Longrightarrow>
   \<exists>y. 0 \<le> y \<and> y \<le> int k \<and> days_before_year y \<le> doe \<and> doe \<le> last_of_year y"
proof (induction k)
  case 0
  then show ?case by (intro exI [of _ 0]) (simp add: days_before_year_def)
next
  case (Suc k)
  show ?case
  proof (cases "doe \<le> last_of_year (int k)")
    case True
    with Suc obtain y where "0 \<le> y" "y \<le> int k" "days_before_year y \<le> doe" "doe \<le> last_of_year y"
      by auto
    then show ?thesis by (intro exI [of _ y]) simp
  next
    case False
    from Suc.prems(3) have "days_before_year (int k + 1) = last_of_year (int k) + 1"
      by (intro days_before_year_next) simp_all
    with False Suc.prems(2) show ?thesis
      by (intro exI [of _ "int (Suc k)"]) (simp add: add.commute)
  qed
qed

lemma year_exists:
  assumes "0 \<le> doe" "doe \<le> 146096"
  shows "\<exists>y. 0 \<le> y \<and> y \<le> 399 \<and> days_before_year y \<le> doe \<and> doe \<le> last_of_year y"
  using year_exists_upto [of doe 399] assms by (simp add: last_of_year_def)

lemma year_of_era_eq:
  assumes y: "0 \<le> y" "y \<le> 399" and doe: "days_before_year y \<le> doe" "doe \<le> last_of_year y"
  shows "year_of_era doe = y"
proof -
  from y have ok: "year_ok y" by (rule year_ok)
  have lo: "0 \<le> days_before_year y"
    using y by (simp add: days_before_year_def; linarith)
  have hi: "last_of_year y \<le> 146096"
    using y by (simp add: last_of_year_def days_before_year_def; linarith)
  from year_of_era_mono [of "days_before_year y" doe] lo doe hi ok
  have "y \<le> year_of_era doe" by (simp add: year_ok_def)
  moreover from year_of_era_mono [of doe "last_of_year y"] lo doe hi ok
  have "year_of_era doe \<le> y" by (simp add: year_ok_def)
  ultimately show ?thesis by simp
qed

lemma day_of_year_step:
  assumes "0 \<le> doe" "doe \<le> 146096"
  shows "0 \<le> day_of_year doe \<and> day_of_year doe \<le> 365 \<and>
         (doe < 146096 \<longrightarrow>
            day_of_year (doe + 1) = day_of_year doe + 1 \<or>
            (day_of_year (doe + 1) = 0 \<and> 364 \<le> day_of_year doe)) \<and>
         (doe = 146096 \<longrightarrow> 364 \<le> day_of_year doe)"
proof -
  from year_exists [OF assms] obtain y where y: "0 \<le> y" "y \<le> 399"
    and doe: "days_before_year y \<le> doe" "doe \<le> last_of_year y"
    by blast
  from y have ok: "year_ok y" by (rule year_ok)
  have yoe: "year_of_era doe = y" using y doe by (rule year_of_era_eq)
  then have doy: "day_of_year doe = doe - days_before_year y"
    by (simp add: day_of_year_def)
  have bounds: "0 \<le> day_of_year doe \<and> day_of_year doe \<le> 365"
    using doy doe ok by (simp add: year_ok_def)
  have step: "day_of_year (doe + 1) = day_of_year doe + 1 \<or>
              (day_of_year (doe + 1) = 0 \<and> 364 \<le> day_of_year doe)" if "doe < 146096"
  proof (cases "doe < last_of_year y")
    case True
    with y doe have "year_of_era (doe + 1) = y" by (intro year_of_era_eq) simp_all
    with yoe show ?thesis by (simp add: day_of_year_def)
  next
    case False
    with doe have eq: "doe = last_of_year y" by simp
    with that have "y \<noteq> 399" by (auto simp: last_of_year_def)
    with y have y': "0 \<le> y + 1" "y + 1 \<le> 399" "y < 399" by simp_all
    from y(1) y'(3) have nx: "days_before_year (y + 1) = doe + 1"
      unfolding eq by (rule days_before_year_next)
    from y' have "year_ok (y + 1)" by (intro year_ok)
    then have "days_before_year (y + 1) \<le> last_of_year (y + 1)" by (simp add: year_ok_def)
    with nx y' have "year_of_era (doe + 1) = y + 1" by (intro year_of_era_eq) simp_all
    with nx have "day_of_year (doe + 1) = 0" by (simp add: day_of_year_def)
    moreover from ok eq have "364 \<le> day_of_year doe" unfolding doy by (simp add: year_ok_def)
    ultimately show ?thesis by simp
  qed
  have last: "364 \<le> day_of_year doe" if "doe = 146096"
  proof -
    have "y = 399"
    proof (rule ccontr)
      assume "y \<noteq> 399"
      with y have "last_of_year y < 146096"
        by (simp add: last_of_year_def days_before_year_def; linarith)
      with doe that show False by simp
    qed
    with that doe have "doe = last_of_year y" by (simp add: last_of_year_def)
    with ok show ?thesis unfolding doy by (simp add: year_ok_def)
  qed
  from bounds step last show ?thesis by blast
qed


lemma day_of_month_ends:
  "day_of_month 0 = 1" "day_of_month 364 = 28" "day_of_month 365 = 29" "day_of_year 0 = 0"
  by (simp_all add: day_of_month_def month_index_def day_of_year_def year_of_era_def
      days_before_year_def)

lemma mod_era_step:
  "(z + 1) mod 146097 = (if z mod 146097 = 146096 then 0 else z mod 146097 + 1)" for z :: int
  by (simp add: mod_add_left_eq [symmetric, of z] zmod_trivial_iff) 

lemma getDate_step:
  "1 \<le> getDate n \<and> getDate n \<le> 31 \<and> (getDate (n + 1) = getDate n + 1 \<or> (getDate (n + 1) = 1 \<and> 28 \<le> getDate n))"
proof -
  let ?doe = "(n + 719468) mod 146097"
  have r: "0 \<le> ?doe" "?doe \<le> 146096" by simp_all
  from day_of_year_step [OF r]
  have b: "0 \<le> day_of_year ?doe" "day_of_year ?doe \<le> 365"
    and st: "?doe < 146096 \<Longrightarrow> day_of_year (?doe + 1) = day_of_year ?doe + 1 \<or>
            (day_of_year (?doe + 1) = 0 \<and> 364 \<le> day_of_year ?doe)"
    and la: "?doe = 146096 \<Longrightarrow> 364 \<le> day_of_year ?doe"
    by simp_all
  from b have ok: "doy_ok (day_of_year ?doe)" by (rule doy_ok)
  then have rng: "1 \<le> getDate n \<and> getDate n \<le> 31" by (simp add: doy_ok_def getDate_def)
  have nx: "(n + 1 + 719468) mod 146097 = (if ?doe = 146096 then 0 else ?doe + 1)"
    using mod_era_step [of "n + 719468"] by (simp add: add.commute add.left_commute)
  have "getDate (n + 1) = getDate n + 1 \<or> (getDate (n + 1) = 1 \<and> 28 \<le> getDate n)"
  proof (cases "?doe = 146096")
    case True
    with la ok have "28 \<le> getDate n" by (auto simp: doy_ok_def getDate_def)
    moreover from True nx have "getDate (n + 1) = 1" by (simp add: getDate_def day_of_month_ends)
    ultimately show ?thesis by simp
  next
    case False
    with r have lt: "?doe < 146096" by simp
    from False nx have d1: "getDate (n + 1) = day_of_month (day_of_year (?doe + 1))"
      by (simp add: getDate_def)
    from st [OF lt] show ?thesis
    proof
      assume e: "day_of_year (?doe + 1) = day_of_year ?doe + 1"
      show ?thesis
      proof (cases "day_of_year ?doe = 364")
        case True
        with e d1 show ?thesis by (simp add: getDate_def day_of_month_ends)
      next
        case False
        from day_of_year_step [of "?doe + 1"] r lt have "day_of_year (?doe + 1) \<le> 365" by simp
        with e False have "day_of_year ?doe < 364" by simp
        with ok e d1 show ?thesis by (auto simp: doy_ok_def getDate_def)
      qed
    next
      assume e: "day_of_year (?doe + 1) = 0 \<and> 364 \<le> day_of_year ?doe"
      with ok have "28 \<le> getDate n" by (auto simp: doy_ok_def getDate_def)
      moreover from e d1 have "getDate (n + 1) = 1" by (simp add: day_of_month_ends)
      ultimately show ?thesis by simp
    qed
  qed
  with rng show ?thesis by simp
qed

lemma week_days_distinct:
  fixes d0 d1 d2 d3 d4 d5 d6 :: int
  assumes "1 \<le> d0" "d6 \<le> 31"
    and "d1 = d0 + 1 \<or> (d1 = 1 \<and> 28 \<le> d0)" and "d2 = d1 + 1 \<or> (d2 = 1 \<and> 28 \<le> d1)"
    and "d3 = d2 + 1 \<or> (d3 = 1 \<and> 28 \<le> d2)" and "d4 = d3 + 1 \<or> (d4 = 1 \<and> 28 \<le> d3)"
    and "d5 = d4 + 1 \<or> (d5 = 1 \<and> 28 \<le> d4)" and "d6 = d5 + 1 \<or> (d6 = 1 \<and> 28 \<le> d5)"
  shows "distinct [d0, d1, d2, d3, d4, d5, d6]"
  using assms by simp arith


lemma two_digit_days:
  "map (\<lambda>d. addLeadingZeros d 2) [1..31] =
     [''01'', ''02'', ''03'', ''04'', ''05'', ''06'', ''07'', ''08'', ''09'', ''10'', ''11'', ''12'', ''13'', ''14'', ''15'', ''16'', ''17'', ''18'', ''19'', ''20'', ''21'', ''22'', ''23'', ''24'', ''25'', ''26'', ''27'', ''28'', ''29'', ''30'', ''31'']"
  by code_simp

lemma two_digit_day_length:
  assumes "1 \<le> d" "d \<le> 31"
  shows "length (addLeadingZeros d 2) = 2"
proof -
  have "\<forall>s \<in> set (map (\<lambda>d. addLeadingZeros d 2) [1..31]). length s = 2"
    unfolding two_digit_days by simp
  with assms show ?thesis by simp
qed

lemma two_digit_day_inj:
  assumes "1 \<le> a" "a \<le> 31" "1 \<le> b" "b \<le> 31" "addLeadingZeros a 2 = addLeadingZeros b 2"
  shows "a = b"
proof -
  have "distinct (map (\<lambda>d. addLeadingZeros d 2) [1..31])"
    unfolding two_digit_days by simp
  then have "inj_on (\<lambda>d. addLeadingZeros d 2) (set [1..31])"
    by (simp add: distinct_map)
  with assms show ?thesis by (auto dest: inj_onD)
qed

lemma format_date_day: "\<exists>pre. format_date n = pre @ addLeadingZeros (getDate n) 2"
proof -
  obtain y m d where c: "civil n = (y, m, d)" by (cases "civil n")
  then have "d = getDate n" by (simp add: civil_def Let_def getDate_def)
  with c have "format_date n =
      (addLeadingZeros (if y > 0 then y else 1 - y) 4 @ ''-'' @ addLeadingZeros m 2 @ ''-'') @
      addLeadingZeros (getDate n) 2"
    by (simp add: format_date_def)
  then show ?thesis by blast
qed

lemma format_date_eq_getDate:
  assumes "format_date a = format_date b"
  shows "getDate a = getDate b"
proof -
  from format_date_day obtain p q where
    a: "format_date a = p @ addLeadingZeros (getDate a) 2" and b: "format_date b = q @ addLeadingZeros (getDate b) 2"
    by blast
  from getDate_step [of a] getDate_step [of b]
  have r: "1 \<le> getDate a" "getDate a \<le> 31" "1 \<le> getDate b" "getDate b \<le> 31" by simp_all
  then have "length (addLeadingZeros (getDate a) 2) = length (addLeadingZeros (getDate b) 2)"
    by (simp add: two_digit_day_length)
  with assms a b have "addLeadingZeros (getDate a) 2 = addLeadingZeros (getDate b) 2"
    by simp
  with r show ?thesis by (intro two_digit_day_inj)
qed

lemma seedDates_distinct_always: "distinct (seedDates today)"
proof -
  let ?n = "today - 6"
  from getDate_step [of ?n] getDate_step [of "?n + 1"] getDate_step [of "?n + 2"] getDate_step [of "?n + 3"]
    getDate_step [of "?n + 4"] getDate_step [of "?n + 5"] getDate_step [of "?n + 6"]
  have "distinct [getDate ?n, getDate (?n + 1), getDate (?n + 2), getDate (?n + 3), getDate (?n + 4), getDate (?n + 5),
          getDate (?n + 6)]"
    by (intro week_days_distinct) (simp_all add: add.assoc)
  then have d: "distinct (map getDate [today, today - 1, today - 2, today - 3, today - 4, today - 5, today - 6])"
    by (simp add: eq_commute) 
  have "distinct (map format_date [today, today - 1, today - 2, today - 3, today - 4, today - 5, today - 6])"
    unfolding distinct_map
  proof
    from d show "distinct [today, today - 1, today - 2, today - 3, today - 4, today - 5, today - 6]"
      by (simp add: distinct_map)
    from d have "inj_on getDate (set [today, today - 1, today - 2, today - 3, today - 4, today - 5, today - 6])"
      by (simp only: distinct_map)
    then show "inj_on format_date (set [today, today - 1, today - 2, today - 3, today - 4, today - 5, today - 6])"
      unfolding inj_on_def using format_date_eq_getDate by blast
  qed
  then show ?thesis by (simp add: seedDates_def subDays_def)
qed


lemma seedDates_distinct:
  shows "format_date today \<noteq> format_date (today - 1)" "format_date today \<noteq> format_date (today - 2)"
    "format_date today \<noteq> format_date (today - 3)" "format_date today \<noteq> format_date (today - 4)"
    "format_date today \<noteq> format_date (today - 5)" "format_date today \<noteq> format_date (today - 6)"
    "format_date (today - 1) \<noteq> format_date (today - 2)" "format_date (today - 1) \<noteq> format_date (today - 3)"
    "format_date (today - 1) \<noteq> format_date (today - 4)" "format_date (today - 1) \<noteq> format_date (today - 5)"
    "format_date (today - 1) \<noteq> format_date (today - 6)"
    "format_date (today - 2) \<noteq> format_date (today - 3)" "format_date (today - 2) \<noteq> format_date (today - 4)"
    "format_date (today - 2) \<noteq> format_date (today - 5)" "format_date (today - 2) \<noteq> format_date (today - 6)"
    "format_date (today - 3) \<noteq> format_date (today - 4)" "format_date (today - 3) \<noteq> format_date (today - 5)"
    "format_date (today - 3) \<noteq> format_date (today - 6)"
    "format_date (today - 4) \<noteq> format_date (today - 5)" "format_date (today - 4) \<noteq> format_date (today - 6)"
    "format_date (today - 5) \<noteq> format_date (today - 6)"
  using seedDates_distinct_always [of today] by (simp_all add: seedDates_def subDays_def)

lemma sampleBookings_free:
  "sorted_wrt (\<lambda>a b. \<not> fields_clash a b) (sampleBookings today)"
  using seedDates_distinct [of today] seedDates_distinct [of today, symmetric]
  by (simp add: sampleBookings_def sample_def subDays_def fields_clash_def ranges_conflict_def
      js_lt_def js_plus_def startHour_samples)

lemma sampleBookings_in_window: "list_all in_window (sampleBookings today)"
  by (simp add: sampleBookings_def sample_def in_window_def startHour_samples
      OPENING_HOUR_def CLOSING_HOUR_def)

lemma store_ok_MemStorage_new: "store_ok (MemStorage_new today rnd)"
  using seedBookings_ok [of "[]" "sampleBookings today" rnd 0]
    sampleBookings_free [of today] sampleBookings_in_window [of today]
  by (simp add: store_ok_def MemStorage_new_def no_double_booking_def map_values_def)



lemma seeded_first:
  "getBooking seeded ''seed-0'' =
     Some \<lparr> name = ''Ahmed Khan'', phone = ''+92 300 1234567'', sportId = ''cricket'',
       courtId = ''court-a'', date = ''2024-01-07'', startTime = ''09:00'', hours = 2, amount = 4000,
       booking_id = ''seed-0'', uuid = ''SEED-1'', status = ''booked'' \<rparr>"
  by code_simp














section \<open>Completed bookings do not occupy their slot\<close>

lemma no_fields_clash_no_slot_clash:
  assumes "in_window a" and "in_window b" and "\<not> fields_clash a b"
    and "courtId a = courtId b" and "date a = date b"
  shows "\<not> slot_clash (startHour (startTime a)) (js_plus (startHour (startTime a)) (hours a))
            (startHour (startTime b)) (js_plus (startHour (startTime b)) (hours b))"
proof (cases "startHour (startTime a)")
  case None
  then show ?thesis by (simp add: js_plus_def)
next
  case a: (Some s1)
  show ?thesis
  proof (cases "startHour (startTime b)")
    case None
    then show ?thesis by simp
  next
    case b: (Some s2)
    from assms(1,2) have pos: "s1 < s1 + hours a" "s2 < s2 + hours b"
      by (simp_all add: in_window_def)
    from assms(3,4,5) a b have "\<not> (s1 < s2 + hours b \<and> s2 < s1 + hours a)"
      by (simp add: fields_clash_def ranges_conflict_def js_lt_def js_plus_def)
    with slot_clash_imp_overlap [OF pos] show ?thesis
      by (auto simp: a b js_plus_def)
  qed
qed

lemma others_free:
  assumes inv: "no_double_booking m" and b: "map_of m i = Some b"
    and x: "x \<in> set (map_values (map_set i v m))"
  shows "x = v \<or> (x \<in> set (map_values m) \<and> \<not> double_booked b x)"
proof -
  from b have "(i, b) \<in> set m" by (rule map_of_SomeD)
  then have "i \<in> fst ` set m" by force
  with map_set_cases [of i m v] b
  obtain xs ys where m: "m = xs @ (i, b) # ys" and s: "map_set i v m = xs @ (i, v) # ys"
    by auto
  from inv have "\<forall>y \<in> set (map snd xs). \<not> double_booked y b"
    and "\<forall>y \<in> set (map snd ys). \<not> double_booked b y"
    by (auto simp: m no_double_booking_def map_values_def sorted_wrt_append)
  then have free: "\<forall>y \<in> set (map snd xs) \<union> set (map snd ys). \<not> double_booked b y"
    using double_booked_sym by blast
  from x s have "x = v \<or> x \<in> set (map snd xs) \<union> set (map snd ys)"
    by (auto simp: map_values_def)
  moreover have "set (map snd xs) \<union> set (map snd ys) \<subseteq> set (map_values m)"
    by (auto simp: m map_values_def)
  ultimately show ?thesis using free by blast
qed

lemma complete_frees_slot:
  assumes ok: "store_ok st" and b: "getBooking st i = Some b" and booked: "status b = ''booked''"
  shows "checkSlotAvailability (st\<lparr>bookings := map_set i (b\<lparr>status := ''completed''\<rparr>) (bookings st)\<rparr>)
           (courtId b) (date b) (startTime b) (hours b)"
proof -
  let ?st' = "st\<lparr>bookings := map_set i (b\<lparr>status := ''completed''\<rparr>) (bookings st)\<rparr>"
  from ok have inv: "no_double_booking (bookings st)" and win: "list_all in_window (map_values (bookings st))"
    by (simp_all add: store_ok_def)
  from b have mo: "map_of (bookings st) i = Some b"
    by (simp add: getBooking_def map_get_def)
  from b win have wb: "in_window b"
    using map_get_in_values [of "bookings st" i b] by (simp add: getBooking_def list_all_iff)
  have none: "\<not> slot_clash (startHour (startTime b)) (js_plus (startHour (startTime b)) (hours b))
                 (startHour (startTime x)) (js_plus (startHour (startTime x)) (hours x))"
    if "x \<in> set (getBookingsForDateAndCourt ?st' (date b) (courtId b))" for x
  proof -
    from that have x: "x \<in> set (map_values (map_set i (b\<lparr>status := ''completed''\<rparr>) (bookings st)))"
      and xb: "status x = ''booked''" "courtId x = courtId b" "date x = date b"
      by (simp_all add: getBookingsForDateAndCourt_def)
    from others_free [OF inv mo x] xb
    have mem: "x \<in> set (map_values (bookings st))" and nd: "\<not> double_booked b x"
      by auto
    from mem win have wx: "in_window x" by (simp add: list_all_iff)
    from nd xb booked have "\<not> fields_clash b x" by (simp add: double_booked_def)
    with wb wx xb show ?thesis by (intro no_fields_clash_no_slot_clash) simp_all
  qed
  from wb have "\<not> js_lt (startHour (startTime b)) (Some OPENING_HOUR)"
    and "\<not> js_gt (js_plus (startHour (startTime b)) (hours b)) (Some CLOSING_HOUR)"
    by (auto simp: in_window_def js_lt_def js_gt_def js_plus_def split: option.splits)
  with none show ?thesis
    by (simp add: checkSlotAvailability_iff)
qed

lemma filter_booked_values:
  "filter (\<lambda>b. P b \<and> status b = ''booked'') (map snd (filter (\<lambda>p. status (snd p) = ''booked'') m)) =
   filter (\<lambda>b. P b \<and> status b = ''booked'') (map snd m)"
  by (induction m) auto

lemma check_consults_booked_only:
  "checkSlotAvailability (st\<lparr>bookings := filter (\<lambda>p. status (snd p) = ''booked'') (bookings st)\<rparr>) c d t h =
   checkSlotAvailability st c d t h"
proof -
  have "getBookingsForDateAndCourt (st\<lparr>bookings := filter (\<lambda>p. status (snd p) = ''booked'') (bookings st)\<rparr>) d c =
        getBookingsForDateAndCourt st d c"
    using filter_booked_values [of "\<lambda>b. date b = d \<and> courtId b = c" "bookings st"]
    by (simp add: getBookingsForDateAndCourt_def map_values_def)
  then show ?thesis by (simp add: checkSlotAvailability_def)
qed

text \<open>
  Claim C8. In a store reached from the seeded store, let a booking have the status
  \<open>booked\<close>. The complete route marks it \<open>completed\<close>; after that
  \<^verbatim>\<open>checkSlotAvailability\<close> reports its court, date, start time and hours as
  free, and the create route accepts every request for that same range that passes the
  insert schema, whatever the schema's amount check is, and stores it. The availability
  check gives the same answer on the store with all bookings that are not \<open>booked\<close>
  removed.
\<close>

theorem completed_booking_frees_slot:
  assumes "reachable (MemStorage_new today rnd) st"
    and "getBooking st i = Some b" and "status b = ''booked''"
  shows "\<exists>st'. post_complete True i st = (Inr (Some (b\<lparr>status := ''completed''\<rparr>)), st') \<and>
           getBooking st' i = Some (b\<lparr>status := ''completed''\<rparr>) \<and>
           checkSlotAvailability st' (courtId b) (date b) (startTime b) (hours b) \<and>
           (\<forall>amount_ok r1 r2 body.
              insertBookingSchema_ok amount_ok body \<and> courtId body = courtId b \<and> date body = date b \<and>
              startTime body = startTime b \<and> hours body = hours b \<longrightarrow>
              (\<exists>st''. post_booking amount_ok True r1 r2 body st' = (Inr (new_booking r1 r2 body), st'') \<and>
                      getBooking st'' r1 = Some (new_booking r1 r2 body))) \<and>
           (\<forall>c d t h.
              checkSlotAvailability st' c d t h =
              checkSlotAvailability (st'\<lparr>bookings := filter (\<lambda>p. status (snd p) = ''booked'') (bookings st')\<rparr>) c d t h)"
proof -
  let ?st' = "st\<lparr>bookings := map_set i (b\<lparr>status := ''completed''\<rparr>) (bookings st)\<rparr>"
  from assms(1) have ok: "store_ok st"
    using reachable_store_ok store_ok_MemStorage_new by blast
  from assms(2,3) have 1: "post_complete True i st = (Inr (Some (b\<lparr>status := ''completed''\<rparr>)), ?st')"
    by (simp add: post_complete_found)
  have 2: "getBooking ?st' i = Some (b\<lparr>status := ''completed''\<rparr>)"
    by (simp add: getBooking_def map_get_map_set)
  have 3: "checkSlotAvailability ?st' (courtId b) (date b) (startTime b) (hours b)"
    using ok assms(2,3) by (rule complete_frees_slot)
  have 4: "\<exists>st''. post_booking amount_ok True r1 r2 body ?st' = (Inr (new_booking r1 r2 body), st'') \<and>
                  getBooking st'' r1 = Some (new_booking r1 r2 body)"
    if "insertBookingSchema_ok amount_ok body" "courtId body = courtId b" "date body = date b"
       "startTime body = startTime b" "hours body = hours b"
    for amount_ok r1 r2 body
    using that 3
    by (simp add: post_booking_def createBooking_def Let_def getBooking_def map_get_map_set)
  have 5: "checkSlotAvailability ?st' c d t h =
           checkSlotAvailability (?st'\<lparr>bookings := filter (\<lambda>p. status (snd p) = ''booked'') (bookings ?st')\<rparr>) c d t h"
    for c d t h
    using check_consults_booked_only [of ?st' c d t h] by simp
  from 1 2 3 4 5 show ?thesis by blast
qed

theorem completed_booking_frees_slot_witness:
  "reachable seeded seeded \<and>
   map_option status (getBooking seeded ''seed-0'') = Some ''booked'' \<and>
   checkSlotAvailability (snd (post_complete True ''seed-0'' seeded)) ''court-a'' ''2024-01-07'' ''09:00'' 2"
proof -
  have r: "reachable (MemStorage_new 19729 seed_rnd) seeded"
    unfolding seeded_def by (rule reachable.start)
  from completed_booking_frees_slot [OF r seeded_first] r seeded_first
  show ?thesis by (auto simp: seeded_def)
qed


end
